theory Spec2Isabelle
  imports Main "HOL-Library.Char_ord" "HOL-Library.List_Lexorder"
begin

section \<open>Requests, chain units and what a request leaves behind\<close>

text \<open>
  The engine of package easyserver exists in three revisions: \<^verbatim>\<open>server.go\<close> (a linked
  list of engine-wide middlewares in front of one \<^verbatim>\<open>router.Handler\<close> per route, type
  \<^verbatim>\<open>engineContext\<close>) and two revisions of the node/group engine (a slice of units per
  route, type \<^verbatim>\<open>reqContext\<close>), which differ in the path an empty request path is
  rewritten to and in one trace call.

  Only two fields of \<^verbatim>\<open>http.Request\<close> decide anything in the engine: the method and
  the path of the URL. The rest of the URL travels along in \<open>URL_RawQuery\<close>.
\<close>

record URL =
  URL_Path :: string
  URL_RawQuery :: string

record Request =
  Req_Method :: string
  Req_URL :: URL

type_synonym UrlParam = "string \<times> string"

text \<open>
  A Go panic carries a value. The run time raises two of its own here: an index out of
  range, and a nil dereference (the call of a nil func, a field read through a nil
  pointer). \<open>PanicValue\<close> is a value given to \<^verbatim>\<open>panic\<close> by the program (a value
  that is not nil, so that \<^verbatim>\<open>recover\<close> sees it).
\<close>

datatype fault = IndexOutOfRange | NilDereference | PanicValue string

datatype 'a outcome = Returns 'a | Panics fault

text \<open>
  A chain unit is a Go func value \<^verbatim>\<open>func(c Context)\<close>. What it does with the context
  it is given is described by a \<open>prog\<close>: calls on the response writer, a panic, and calls
  of \<^verbatim>\<open>c.Next()\<close>, after which the unit goes on with one of two continuations, by the
  boolean that \<^verbatim>\<open>Next\<close> returned. The prog may depend on what the read-only accessors
  of the context return (\<open>ctx_view\<close>). A nil func is \<open>None\<close>. Units that keep state of
  their own between two invocations, or that recover a panic themselves, are outside
  this description.
\<close>

datatype effect = SetHeader string string | WriteHeader nat | Write string

datatype prog = Return | Do effect prog | Raise fault | CallNext prog prog

record ctx_view =
  GetReq :: Request
  GetParamParam :: "UrlParam list"
  GetMatchPath :: string

type_synonym unit_fn = "(ctx_view \<Rightarrow> prog) option"

text \<open>
  Everything a request does outside the engine's memory is appended to a list of events:
  the calls on the response writer (\<open>Resp\<close>), the calls of \<^verbatim>\<open>http.Error\<close>,
  \<^verbatim>\<open>http.Redirect\<close> (with the URL whose \<^verbatim>\<open>String()\<close> is passed) and
  \<^verbatim>\<open>http.NotFound\<close>, the calls of the logger and the call of the router's lookup.
  \<open>Invoke i\<close>, \<open>InvokeMiddleware\<close> and \<open>InvokeHandler\<close> are not calls of a library:
  they mark the moment at which the engine calls a unit (\<open>i\<close> is the index read from the
  chain).
\<close>

datatype event =
    TraceReq Request
  | TraceMatch string "UrlParam list"
  | TraceResp
  | Critical fault
  | LookupCall string string
  | Invoke nat
  | InvokeMiddleware
  | InvokeHandler
  | Resp effect
  | HttpError string nat
  | HttpRedirect URL nat
  | HttpNotFound

section \<open>reqContext and its Next\<close>

record reqContext =
  req :: Request
  pathParam :: "UrlParam list"
  middlewares :: "unit_fn list"
  curMW :: nat
  matchPath :: string

definition view :: "reqContext \<Rightarrow> ctx_view" where
  "view c = \<lparr>GetReq = req c, GetParamParam = pathParam c, GetMatchPath = matchPath c\<rparr>"

text \<open>Go's \<^verbatim>\<open>s[i]\<close>: a run-time panic when the index is not below the length.\<close>

definition index :: "'a list \<Rightarrow> nat \<Rightarrow> 'a outcome" where
  "index xs i = (if i < length xs then Returns (xs ! i) else Panics IndexOutOfRange)"

text \<open>The call \<^verbatim>\<open>f(c)\<close> of a func value: calling nil panics.\<close>

definition call_unit :: "unit_fn \<Rightarrow> ctx_view \<Rightarrow> prog" where
  "call_unit u v = (case u of None \<Rightarrow> Raise NilDereference | Some f \<Rightarrow> f v)"

text \<open>
  \<^verbatim>\<open>
  func (c *reqContext) Next() bool {
      if c.curMW >= len(c.middlewares) {
          return false
      }
      c.curMW++
      c.middlewares[c.curMW-1](c)
      return true
  }
  \<close>
  \<open>reqContext_Next\<close> is this method and \<open>run\<close> is the execution of a unit's body, which
  calls back into \<open>reqContext_Next\<close> on the same context. The context is passed by pointer,
  so its fields go in and come out; a panic ends each pending call on its way up.
\<close>

function reqContext_Next :: "reqContext \<Rightarrow> event list \<Rightarrow> (reqContext \<times> event list) \<times> bool outcome"
  and run :: "prog \<Rightarrow> reqContext \<Rightarrow> event list \<Rightarrow> (reqContext \<times> event list) \<times> unit outcome"
where
  "reqContext_Next c w =
     (if curMW c \<ge> length (middlewares c) then ((c, w), Returns False)
      else case index (middlewares c) (curMW c + 1 - 1) of
             Panics f \<Rightarrow> ((c\<lparr>curMW := curMW c + 1\<rparr>, w), Panics f)
           | Returns u \<Rightarrow>
               (case run (call_unit u (view c)) (c\<lparr>curMW := curMW c + 1\<rparr>) (w @ [Invoke (curMW c + 1 - 1)]) of
                  (s, Returns _) \<Rightarrow> (s, Returns True)
                | (s, Panics f) \<Rightarrow> (s, Panics f)))"
| "run Return c w = ((c, w), Returns ())"
| "run (Do e p) c w = run p c (w @ [Resp e])"
| "run (Raise f) c w = ((c, w), Panics f)"
| "run (CallNext pt pf) c w =
     (case reqContext_Next c w of
        ((c', w'), Returns b) \<Rightarrow> run (if b then pt else pf) c' w'
      | (s, Panics f) \<Rightarrow> (s, Panics f))"
  by pat_completeness auto

text \<open>
  The continuation of a unit runs in the state its call of \<open>Next\<close> left, so that
  termination needs to know that a call of \<open>Next\<close> keeps the chain and never moves the
  cursor back.
\<close>

lemma Next_run_partial:
  "reqContext_Next_run_dom (Inl (c, w)) \<Longrightarrow>
     middlewares (fst (fst (reqContext_Next c w))) = middlewares c \<and>
     curMW c \<le> curMW (fst (fst (reqContext_Next c w)))"
  "reqContext_Next_run_dom (Inr (p, c, w)) \<Longrightarrow>
     middlewares (fst (fst (run p c w))) = middlewares c \<and>
     curMW c \<le> curMW (fst (fst (run p c w)))"
proof (induction c w and p c w rule: reqContext_Next_run.pinduct)
  case (1 c w)
  then show ?case
    by (auto simp: reqContext_Next.psimps index_def split: prod.splits outcome.splits)
next
  case (5 pt pf c w)
  then show ?case
    by (auto simp: run.psimps split: prod.splits outcome.splits) fastforce+
qed (simp_all add: run.psimps)

termination reqContext_Next
proof (relation "inv_image (less_than <*lex*> less_than)
    (\<lambda>x. case x of
        Inl (c, w) \<Rightarrow> (length (middlewares c) - curMW c, 0)
      | Inr (p, c, w) \<Rightarrow> (length (middlewares c) - curMW c, Suc (size p)))", goal_cases)
  case 1
  show ?case by (intro wf_inv_image wf_lex_prod wf_less_than)
next
  case (2 c w u)
  then show ?case by auto
next
  case (3 e p c w)
  then show ?case by simp
next
  case (4 pt pf c w)
  then show ?case by simp
next
  case (5 pt pf c w x y xa ya x1)
  from 5 have d: "reqContext_Next_run_dom (Inl (c, w))"
    and e: "reqContext_Next c w = ((xa, ya), Returns x1)"
    by auto
  from Next_run_partial(1)[OF d] e
  have "middlewares xa = middlewares c" "curMW c \<le> curMW xa"
    by simp_all
  then show ?case by auto
qed


section \<open>engineContext and its Next (server.go)\<close>

text \<open>
  In \<^verbatim>\<open>server.go\<close> the route's handler is a \<^verbatim>\<open>router.Handler\<close>, called with the
  response writer, the request and the path parameters: it is given no context and so
  cannot call \<^verbatim>\<open>Next\<close>. Its body is an \<open>hprog\<close>. The middlewares are engine-wide, a
  linked list built by \<^verbatim>\<open>AppendMiddleware\<close>; the list is a HOL list here and the
  pointer \<^verbatim>\<open>curMW\<close> is the part of the list it points to (\<open>[]\<close> for nil). The
  \<^verbatim>\<open>Context\<close> of this revision has no \<^verbatim>\<open>GetMatchPath\<close>.
\<close>

datatype hprog = HReturn | HDo effect hprog | HRaise fault

type_synonym Handler = "Request \<Rightarrow> UrlParam list \<Rightarrow> hprog"

type_synonym mw_fn = "(Request \<times> UrlParam list \<Rightarrow> prog) option"

primrec run_plain :: "hprog \<Rightarrow> event list \<Rightarrow> event list \<times> unit outcome" where
  "run_plain HReturn w = (w, Returns ())"
| "run_plain (HDo e p) w = run_plain p (w @ [Resp e])"
| "run_plain (HRaise f) w = (w, Panics f)"

record server_engine =
  srv_r :: "(string \<times> string \<times> Handler option) list"
  srv_middlewares :: "mw_fn list"
  srv_allowedMethods_s :: "string list"
  srv_allowedMethods_str :: string

record engineContext =
  ec_req :: Request
  ec_pathParam :: "UrlParam list"
  ec_engine :: server_engine
  ec_handler :: Handler
  ec_curMW :: "mw_fn list"

definition call_mw :: "mw_fn \<Rightarrow> Request \<times> UrlParam list \<Rightarrow> prog" where
  "call_mw u v = (case u of None \<Rightarrow> Raise NilDereference | Some f \<Rightarrow> f v)"

text \<open>
  \<^verbatim>\<open>
  func (c *engineContext) Next() bool {
      if c.curMW == nil {
          c.handler(c.GetResp(), c.GetReq(), c.GetParamParam())
          return false
      }
      c.curMW.handler(c)
      c.curMW = c.curMW.next
      return true
  }
  \<close>
  The cursor moves after the middleware has returned, so a middleware that calls
  \<^verbatim>\<open>c.Next()\<close> is entered again, and this need not end. The first argument is fuel:
  the number of nested calls of \<open>Next\<close> that are allowed, and \<open>None\<close> says that it was
  used up.
\<close>

fun engineContext_Next :: "nat \<Rightarrow> engineContext \<Rightarrow> event list \<Rightarrow> ((engineContext \<times> event list) \<times> bool outcome) option"
  and srv_run :: "nat \<Rightarrow> prog \<Rightarrow> engineContext \<Rightarrow> event list \<Rightarrow> ((engineContext \<times> event list) \<times> unit outcome) option"
where
  "engineContext_Next 0 c w = None"
| "engineContext_Next (Suc n) c w =
     (case ec_curMW c of
        [] \<Rightarrow>
          (case run_plain (ec_handler c (ec_req c) (ec_pathParam c)) (w @ [InvokeHandler]) of
             (w', Returns _) \<Rightarrow> Some ((c, w'), Returns False)
           | (w', Panics f) \<Rightarrow> Some ((c, w'), Panics f))
      | m # _ \<Rightarrow>
          (case srv_run n (call_mw m (ec_req c, ec_pathParam c)) c (w @ [InvokeMiddleware]) of
             None \<Rightarrow> None
           | Some (s, Panics f) \<Rightarrow> Some (s, Panics f)
           | Some ((c', w'), Returns _) \<Rightarrow>
               (case ec_curMW c' of
                  [] \<Rightarrow> Some ((c', w'), Panics NilDereference)
                | _ # next \<Rightarrow> Some ((c'\<lparr>ec_curMW := next\<rparr>, w'), Returns True))))"
| "srv_run n Return c w = Some ((c, w), Returns ())"
| "srv_run n (Do e p) c w = srv_run n p c (w @ [Resp e])"
| "srv_run n (Raise f) c w = Some ((c, w), Panics f)"
| "srv_run n (CallNext pt pf) c w =
     (case engineContext_Next n c w of
        None \<Rightarrow> None
      | Some ((c', w'), Returns b) \<Rightarrow> srv_run n (if b then pt else pf) c' w'
      | Some (s, Panics f) \<Rightarrow> Some (s, Panics f))"

text \<open>
  Whether a unit body calls \<open>Next\<close>, and the body as an \<open>hprog\<close> when it does not.
\<close>

primrec calls_next :: "prog \<Rightarrow> bool" where
  "calls_next Return = False"
| "calls_next (Do e p) = calls_next p"
| "calls_next (Raise f) = False"
| "calls_next (CallNext pt pf) = True"

primrec plain_part :: "prog \<Rightarrow> hprog" where
  "plain_part Return = HReturn"
| "plain_part (Do e p) = HDo e (plain_part p)"
| "plain_part (Raise f) = HRaise f"
| "plain_part (CallNext pt pf) = HReturn"

section \<open>Slices of units\<close>

text \<open>
  \<^verbatim>\<open>Register\<close> and \<^verbatim>\<open>RegisterGroup\<close> call \<^verbatim>\<open>append\<close> on slices they were given, and
  a slice is a window on an array that other slices may share. The arrays of units live
  in a heap, a list of arrays addressed by position; a slice names its array, the offset
  of its first element, its length and its capacity. The nil slice has capacity 0.

  \<^verbatim>\<open>append(s, xs...)\<close> writes behind the elements of \<open>s\<close> into the array of \<open>s\<close> when
  the capacity suffices, and returns a slice of the same array; otherwise it allocates
  an array, copies, and returns a slice of the new array. The capacity of a new array is
  up to the run time: \<open>grow\<close> (given the old capacity and the length needed) stands for
  its choice, and at least the length needed is taken.
\<close>

record slice =
  arr :: nat
  off :: nat
  len :: nat
  cap :: nat

type_synonym heap = "unit_fn list list"

definition nil_slice :: slice where
  "nil_slice = \<lparr>arr = 0, off = 0, len = 0, cap = 0\<rparr>"

definition elems :: "heap \<Rightarrow> slice \<Rightarrow> unit_fn list" where
  "elems h s = (if arr s < length h then take (len s) (drop (off s) (h ! arr s)) else [])"

definition write_at :: "'a list \<Rightarrow> nat \<Rightarrow> 'a list \<Rightarrow> 'a list" where
  "write_at a i xs = take i a @ xs @ drop (i + length xs) a"

definition append_slice :: "(nat \<Rightarrow> nat \<Rightarrow> nat) \<Rightarrow> heap \<Rightarrow> slice \<Rightarrow> unit_fn list \<Rightarrow> heap \<times> slice" where
  "append_slice grow h s xs =
     (let n = len s + length xs in
      if n \<le> cap s then
        (if xs = [] then h else h[arr s := write_at (h ! arr s) (off s + len s) xs], s\<lparr>len := n\<rparr>)
      else
        (let c = max n (grow (cap s) n) in
         (h @ [elems h s @ xs @ replicate (c - n) None], \<lparr>arr = length h, off = 0, len = n, cap = c\<rparr>)))"

text \<open>
  A slice that Go can hold: its length is within its capacity, and unless the capacity
  is 0 its window lies inside its array.
\<close>

definition wf_slice :: "heap \<Rightarrow> slice \<Rightarrow> bool" where
  "wf_slice h s = (len s \<le> cap s \<and> (cap s = 0 \<or> (arr s < length h \<and> off s + cap s \<le> length (h ! arr s))))"

section \<open>The node/group engine: registration\<close>

record Node =
  Method :: string
  Path :: string
  Middlewares :: slice
  Handler :: unit_fn

record Group =
  RootPath :: string
  Group_Middlewares :: slice
  Children :: "Node list"

record routerValue =
  rv_middlewares :: slice
  rv_matchPath :: string

text \<open>
  The router is another package. Its \<^verbatim>\<open>Register\<close> is taken to record the route: the
  field \<open>eng_r\<close> is the list of the registrations made so far, in order. Its lookup is
  a parameter of the request side (\<open>Lookup\<close> below). The slice \<^verbatim>\<open>allowedMethods.s\<close>
  never leaves the engine, so it is a list.
\<close>

record engine =
  eng_r :: "(string \<times> string \<times> routerValue) list"
  allowedMethods_s :: "string list"
  allowedMethods_str :: string

definition New :: engine where
  "New = \<lparr>eng_r = [], allowedMethods_s = [], allowedMethods_str = []\<rparr>"

text \<open>The loop over \<^verbatim>\<open>allowedMethods.s\<close> that stops at the first equal entry.\<close>

primrec methodRegister :: "string list \<Rightarrow> string \<Rightarrow> bool" where
  "methodRegister [] m = False"
| "methodRegister (v # vs) m = (if v = m then True else methodRegister vs m)"

text \<open>The loop over the units of a node that panics at the first nil one.\<close>

primrec has_nil :: "unit_fn list \<Rightarrow> bool" where
  "has_nil [] = False"
| "has_nil (v # vs) = (case v of None \<Rightarrow> True | Some _ \<Rightarrow> has_nil vs)"

text \<open>\<^verbatim>\<open>strings.Join\<close>.\<close>

fun Join :: "string list \<Rightarrow> string \<Rightarrow> string" where
  "Join [] sep = []"
| "Join [x] sep = x"
| "Join (x # y # ys) sep = x @ sep @ Join (y # ys) sep"

text \<open>
  \<^verbatim>\<open>
  func (e *engine) Register(node Node) {
      node.Middlewares = append(node.Middlewares, node.Handler)
      for _, v := range node.Middlewares {
          if v == nil {
              panic("middleware or handle of a node is nil")
          }
      }
      e.r.Register(node.Method, node.Path, &routerValue{
          middlewares: node.Middlewares,
          matchPath:   node.Path,
      })
      for _, v := range e.allowedMethods.s {
          if v == node.Method {
              return
          }
      }
      e.allowedMethods.s = append(e.allowedMethods.s, node.Method)
      sort.Strings(e.allowedMethods.s)
      e.allowedMethods.str = strings.Join(e.allowedMethods.s, ",")
  }
  \<close>
  The state is the heap and the engine; the state at the moment of a panic is returned
  with it. \<^verbatim>\<open>sort.Strings\<close> orders strings byte by byte, as the order on \<open>string\<close> does.
\<close>

definition Register :: "(nat \<Rightarrow> nat \<Rightarrow> nat) \<Rightarrow> heap \<times> engine \<Rightarrow> Node \<Rightarrow> (heap \<times> engine) \<times> unit outcome" where
  "Register grow st node =
     (case st of (h, e) \<Rightarrow>
        (case append_slice grow h (Middlewares node) [Handler node] of (h1, mws) \<Rightarrow>
           if has_nil (elems h1 mws)
           then ((h1, e), Panics (PanicValue ''middleware or handle of a node is nil''))
           else
             (let e1 = e\<lparr>eng_r := eng_r e @
                         [(Method node, Path node, \<lparr>rv_middlewares = mws, rv_matchPath = Path node\<rparr>)]\<rparr>
              in if methodRegister (allowedMethods_s e1) (Method node) then ((h1, e1), Returns ())
                 else
                   (let s = sort (allowedMethods_s e1 @ [Method node])
                    in ((h1, e1\<lparr>allowedMethods_s := s, allowedMethods_str := Join s '',''\<rparr>), Returns ())))))"

text \<open>
  \<^verbatim>\<open>
  func (e *engine) RegisterGroup(group Group) {
      for _, v := range group.Children {
          v.Middlewares = append(group.Middlewares, v.Middlewares...)
          v.Path = group.RootPath + v.Path
          e.Register(v)
      }
  }
  \<close>
\<close>

fun RegisterGroup_loop :: "(nat \<Rightarrow> nat \<Rightarrow> nat) \<Rightarrow> Group \<Rightarrow> Node list \<Rightarrow> heap \<times> engine \<Rightarrow> (heap \<times> engine) \<times> unit outcome" where
  "RegisterGroup_loop grow g [] st = (st, Returns ())"
| "RegisterGroup_loop grow g (v # vs) st =
     (case st of (h, e) \<Rightarrow>
        (case append_slice grow h (Group_Middlewares g) (elems h (Middlewares v)) of (h1, mws) \<Rightarrow>
           (case Register grow (h1, e) (v\<lparr>Middlewares := mws, Path := RootPath g @ Path v\<rparr>) of
              (st', Panics f) \<Rightarrow> (st', Panics f)
            | (st', Returns _) \<Rightarrow> RegisterGroup_loop grow g vs st')))"

definition RegisterGroup :: "(nat \<Rightarrow> nat \<Rightarrow> nat) \<Rightarrow> heap \<times> engine \<Rightarrow> Group \<Rightarrow> (heap \<times> engine) \<times> unit outcome" where
  "RegisterGroup grow st g = RegisterGroup_loop grow g (Children g) st"

text \<open>A start-up phase: calls of \<^verbatim>\<open>Register\<close> one after the other, ended by the first panic.\<close>

fun Register_all :: "(nat \<Rightarrow> nat \<Rightarrow> nat) \<Rightarrow> heap \<times> engine \<Rightarrow> Node list \<Rightarrow> (heap \<times> engine) \<times> unit outcome" where
  "Register_all grow st [] = (st, Returns ())"
| "Register_all grow st (v # vs) =
     (case Register grow st v of
        (st', Panics f) \<Rightarrow> (st', Panics f)
      | (st', Returns _) \<Rightarrow> Register_all grow st' vs)"

text \<open>What the chain of a registered route reads as, in a given heap.\<close>

definition chain_of :: "heap \<Rightarrow> routerValue \<Rightarrow> unit_fn list" where
  "chain_of h v = elems h (rv_middlewares v)"


section \<open>Serving a request\<close>

text \<open>
  What the engine takes from other packages at request time: the router's lookup,
  a function of the registrations made and of method and path, which returns the value
  registered (or nil), the path parameters and the redirect signal; and the name of the
  response header for the log id, \<^verbatim>\<open>logs.LogIdContextKey\<close>. The log id itself, from
  \<^verbatim>\<open>logs.GenLogId()\<close>, is an argument of \<open>ServeHTTP\<close>.
\<close>

record 'v ext =
  Lookup :: "(string \<times> string \<times> 'v) list \<Rightarrow> string \<Rightarrow> string \<Rightarrow> 'v option \<times> UrlParam list \<times> bool"
  LogIdContextKey :: string

text \<open>
  The two revisions of the node/group engine: the path that replaces an empty path,
  and whether the match is traced before the chain starts.
\<close>

record revision =
  rootPath :: string
  traceMatch :: bool

definition revision_index :: revision where
  "revision_index = \<lparr>rootPath = ''/index'', traceMatch = False\<rparr>"

definition revision_root :: revision where
  "revision_root = \<lparr>rootPath = ''/'', traceMatch = True\<rparr>"

text \<open>
  \<^verbatim>\<open>
  if req.URL.Path[len(req.URL.Path)-1] == '/' {
      req.URL.Path = req.URL.Path[:len(req.URL.Path)-1]
  } else {
      req.URL.Path += "/"
  }
  \<close>
  The index expression panics on the empty string.
\<close>

definition toggle_slash :: "string \<Rightarrow> string outcome" where
  "toggle_slash p =
     (if p = [] then Panics IndexOutOfRange
      else if last p = CHR ''/'' then Returns (butlast p)
      else Returns (p @ ''/''))"

definition set_path :: "Request \<Rightarrow> string \<Rightarrow> Request" where
  "set_path rq p = rq\<lparr>Req_URL := (Req_URL rq)\<lparr>URL_Path := p\<rparr>\<rparr>"

text \<open>
  The deferred \<^verbatim>\<open>recover\<close> of the match branch: a panic that arrives is logged with
  \<^verbatim>\<open>logs.CtxCritical\<close> and ends there; \<^verbatim>\<open>ServeHTTP\<close> then returns normally.
\<close>

definition recover_panic :: "event list \<times> 'a outcome \<Rightarrow> event list \<times> unit outcome" where
  "recover_panic r =
     (case r of
        (w, Panics f) \<Rightarrow> (w @ [Critical f], Returns ())
      | (w, Returns _) \<Rightarrow> (w, Returns ()))"

text \<open>
  The body of \<^verbatim>\<open>ServeHTTP\<close> of the node/group engine after its first trace call: method
  gate, empty path, lookup, then chain, 404 or the redirect to the path with the final
  slash toggled. The context is built with \<^verbatim>\<open>curMW\<close> left at its zero value; its
  \<^verbatim>\<open>middlewares\<close> are the elements the slice of the route reads at that moment.
\<close>

definition dispatch :: "revision \<Rightarrow> routerValue ext \<Rightarrow> heap \<Rightarrow> engine \<Rightarrow> Request \<Rightarrow> event list \<Rightarrow> event list \<times> unit outcome" where
  "dispatch v x h e rq w =
     (if \<not> methodRegister (allowedMethods_s e) (Req_Method rq) then
        (w @ [Resp (SetHeader ''Allow'' (allowedMethods_str e)), HttpError ''Method Not Allowed'' 405], Returns ())
      else if URL_Path (Req_URL rq) = [] then
        (w @ [HttpRedirect (Req_URL (set_path rq (rootPath v))) 308], Returns ())
      else
        (case Lookup x (eng_r e) (Req_Method rq) (URL_Path (Req_URL rq)) of
           (Some hv, urlParams, redirect) \<Rightarrow>
             (case reqContext_Next
                     \<lparr>req = rq, pathParam = urlParams, middlewares = elems h (rv_middlewares hv),
                      curMW = 0, matchPath = rv_matchPath hv\<rparr>
                     (w @ [LookupCall (Req_Method rq) (URL_Path (Req_URL rq))] @
                        (if traceMatch v then [TraceMatch (rv_matchPath hv) urlParams] else []))
              of ((c, w'), out) \<Rightarrow> recover_panic (w', out))
         | (None, urlParams, redirect) \<Rightarrow>
             (if \<not> redirect then
                (w @ [LookupCall (Req_Method rq) (URL_Path (Req_URL rq)), HttpNotFound], Returns ())
              else
                (case toggle_slash (URL_Path (Req_URL rq)) of
                   Panics f \<Rightarrow> (w @ [LookupCall (Req_Method rq) (URL_Path (Req_URL rq))], Panics f)
                 | Returns p \<Rightarrow>
                     (w @ [LookupCall (Req_Method rq) (URL_Path (Req_URL rq)),
                           HttpRedirect (Req_URL (set_path rq p)) 308], Returns ())))))"

text \<open>
  \<^verbatim>\<open>ServeHTTP\<close>: the request is traced, the body runs, and the func deferred first runs
  last, on a return as on a panic: it sets the log id header and traces the response.
\<close>

definition ServeHTTP :: "revision \<Rightarrow> routerValue ext \<Rightarrow> heap \<Rightarrow> engine \<Rightarrow> string \<Rightarrow> Request \<Rightarrow> event list \<times> unit outcome" where
  "ServeHTTP v x h e logId rq =
     (case dispatch v x h e rq [TraceReq rq] of
        (w, out) \<Rightarrow> (w @ [Resp (SetHeader (LogIdContextKey x) logId), TraceResp], out))"

text \<open>The HTTP server calls \<^verbatim>\<open>ServeHTTP\<close> of the one engine for each request it accepts.\<close>

definition serve_all :: "revision \<Rightarrow> routerValue ext \<Rightarrow> heap \<Rightarrow> engine \<Rightarrow> (string \<times> Request) list \<Rightarrow> (event list \<times> unit outcome) list" where
  "serve_all v x h e rqs = map (\<lambda>(logId, rq). ServeHTTP v x h e logId rq) rqs"

subsection \<open>server.go\<close>

definition server_New :: server_engine where
  "server_New = \<lparr>srv_r = [], srv_middlewares = [], srv_allowedMethods_s = [], srv_allowedMethods_str = []\<rparr>"

definition server_Register :: "server_engine \<Rightarrow> string \<Rightarrow> string \<Rightarrow> Handler option \<Rightarrow> server_engine" where
  "server_Register e method path handle =
     (let e1 = e\<lparr>srv_r := srv_r e @ [(method, path, handle)]\<rparr>
      in if methodRegister (srv_allowedMethods_s e1) method then e1
         else
           (let s = sort (srv_allowedMethods_s e1 @ [method])
            in e1\<lparr>srv_allowedMethods_s := s, srv_allowedMethods_str := Join s '',''\<rparr>))"

definition AppendMiddleware :: "server_engine \<Rightarrow> mw_fn \<Rightarrow> server_engine" where
  "AppendMiddleware e handler = e\<lparr>srv_middlewares := srv_middlewares e @ [handler]\<rparr>"

text \<open>A start-up phase of \<^verbatim>\<open>server.go\<close>: calls of \<^verbatim>\<open>Register\<close> one after the other.\<close>

fun server_Register_all :: "server_engine \<Rightarrow> (string \<times> string \<times> Handler option) list \<Rightarrow> server_engine" where
  "server_Register_all e [] = e"
| "server_Register_all e ((m, p, hdl) # rs) = server_Register_all (server_Register e m p hdl) rs"

text \<open>
  The body of \<^verbatim>\<open>ServeHTTP\<close> of \<^verbatim>\<open>server.go\<close>. The lookup is \<^verbatim>\<open>GetHandler\<close>, a nil
  handler counts as no match, and the empty path is rewritten to \<^verbatim>\<open>/index\<close>. The
  fuel is that of \<open>engineContext_Next\<close>.
\<close>

definition server_dispatch :: "nat \<Rightarrow> (Handler option) ext \<Rightarrow> server_engine \<Rightarrow> Request \<Rightarrow> event list \<Rightarrow> (event list \<times> unit outcome) option" where
  "server_dispatch n x e rq w =
     (if \<not> methodRegister (srv_allowedMethods_s e) (Req_Method rq) then
        Some (w @ [Resp (SetHeader ''Allow'' (srv_allowedMethods_str e)), HttpError ''Method Not Allowed'' 405], Returns ())
      else if URL_Path (Req_URL rq) = [] then
        Some (w @ [HttpRedirect (Req_URL (set_path rq ''/index'')) 308], Returns ())
      else
        (case Lookup x (srv_r e) (Req_Method rq) (URL_Path (Req_URL rq)) of
           (Some (Some handler), urlParams, tsr) \<Rightarrow>
             (case engineContext_Next n
                     \<lparr>ec_req = rq, ec_pathParam = urlParams, ec_engine = e, ec_handler = handler,
                      ec_curMW = srv_middlewares e\<rparr>
                     (w @ [LookupCall (Req_Method rq) (URL_Path (Req_URL rq))])
              of None \<Rightarrow> None
               | Some ((c, w'), out) \<Rightarrow> Some (recover_panic (w', out)))
         | (_, urlParams, tsr) \<Rightarrow>
             (if \<not> tsr then
                Some (w @ [LookupCall (Req_Method rq) (URL_Path (Req_URL rq)), HttpNotFound], Returns ())
              else
                (case toggle_slash (URL_Path (Req_URL rq)) of
                   Panics f \<Rightarrow> Some (w @ [LookupCall (Req_Method rq) (URL_Path (Req_URL rq))], Panics f)
                 | Returns p \<Rightarrow>
                     Some (w @ [LookupCall (Req_Method rq) (URL_Path (Req_URL rq)),
                                HttpRedirect (Req_URL (set_path rq p)) 308], Returns ())))))"

definition server_ServeHTTP :: "nat \<Rightarrow> (Handler option) ext \<Rightarrow> server_engine \<Rightarrow> string \<Rightarrow> Request \<Rightarrow> (event list \<times> unit outcome) option" where
  "server_ServeHTTP n x e logId rq =
     (case server_dispatch n x e rq [TraceReq rq] of
        None \<Rightarrow> None
      | Some (w, out) \<Rightarrow> Some (w @ [Resp (SetHeader (LogIdContextKey x) logId), TraceResp], out))"


section \<open>Predicates of the statements\<close>

text \<open>A unit body in which no panic is raised, whatever \<open>Next\<close> returns to it.\<close>

primrec panic_free :: "prog \<Rightarrow> bool" where
  "panic_free Return = True"
| "panic_free (Do e p) = panic_free p"
| "panic_free (Raise f) = False"
| "panic_free (CallNext pt pf) = (panic_free pt \<and> panic_free pf)"

text \<open>
  The events of a running chain: the call of a unit, marked with the index read (below
  the length \<open>n\<close> of the chain), and the calls of units on the response writer.
\<close>

primrec chain_event :: "nat \<Rightarrow> event \<Rightarrow> bool" where
  "chain_event n (TraceReq rq) = False"
| "chain_event n (TraceMatch p ps) = False"
| "chain_event n TraceResp = False"
| "chain_event n (Critical f) = False"
| "chain_event n (LookupCall m p) = False"
| "chain_event n (Invoke i) = (i < n)"
| "chain_event n InvokeMiddleware = False"
| "chain_event n InvokeHandler = False"
| "chain_event n (Resp e) = True"
| "chain_event n (HttpError m k) = False"
| "chain_event n (HttpRedirect u k) = False"
| "chain_event n HttpNotFound = False"

text \<open>The events written by \<^verbatim>\<open>logs.CtxCritical\<close>.\<close>

primrec is_critical :: "event \<Rightarrow> bool" where
  "is_critical (TraceReq rq) = False"
| "is_critical (TraceMatch p ps) = False"
| "is_critical TraceResp = False"
| "is_critical (Critical f) = True"
| "is_critical (LookupCall m p) = False"
| "is_critical (Invoke i) = False"
| "is_critical InvokeMiddleware = False"
| "is_critical InvokeHandler = False"
| "is_critical (Resp e) = False"
| "is_critical (HttpError m k) = False"
| "is_critical (HttpRedirect u k) = False"
| "is_critical HttpNotFound = False"

text \<open>
  \<open>within c w s\<close>: the state \<open>s\<close> differs from the context \<open>c\<close> and the events \<open>w\<close> only
  by a cursor that has moved forward, not beyond the length of the chain, and by further
  events, all of them events of the chain.
\<close>

definition within :: "reqContext \<Rightarrow> event list \<Rightarrow> reqContext \<times> event list \<Rightarrow> bool" where
  "within c w s = (\<exists>n d. s = (c\<lparr>curMW := n\<rparr>, w @ d) \<and> curMW c \<le> n \<and> n \<le> length (middlewares c) \<and>
      list_all (chain_event (length (middlewares c))) d)"

text \<open>A unit body that can raise the panic \<open>f\<close>.\<close>

primrec raises :: "prog \<Rightarrow> fault \<Rightarrow> bool" where
  "raises Return f = False"
| "raises (Do e p) f = raises p f"
| "raises (Raise g) f = (g = f)"
| "raises (CallNext pt pf) f = (raises pt f \<or> raises pf f)"

text \<open>
  Where a panic that comes out of \<open>Next\<close> can start: in the call of a nil unit of the
  chain, or at a \<^verbatim>\<open>panic\<close> in the body of a unit of the chain.
\<close>

definition panic_origin :: "reqContext \<Rightarrow> fault \<Rightarrow> bool" where
  "panic_origin c f =
     ((f = NilDereference \<and> list_ex (\<lambda>u. case u of None \<Rightarrow> True | Some _ \<Rightarrow> False) (middlewares c)) \<or>
      list_ex (\<lambda>u. case u of None \<Rightarrow> False | Some b \<Rightarrow> raises (b (view c)) f) (middlewares c))"

text \<open>
  The calls that write the header of the response: \<^verbatim>\<open>WriteHeader\<close>, a \<^verbatim>\<open>Write\<close>
  (which writes the header first), and \<^verbatim>\<open>http.Error\<close>, \<^verbatim>\<open>http.Redirect\<close> and
  \<^verbatim>\<open>http.NotFound\<close>, which call \<^verbatim>\<open>WriteHeader\<close>. By the contract of
  \<^verbatim>\<open>http.ResponseWriter\<close>, a change of the header map after such a call has no effect
  on the response.
\<close>

primrec writes_header :: "event \<Rightarrow> bool" where
  "writes_header (TraceReq rq) = False"
| "writes_header (TraceMatch p ps) = False"
| "writes_header TraceResp = False"
| "writes_header (Critical f) = False"
| "writes_header (LookupCall m p) = False"
| "writes_header (Invoke i) = False"
| "writes_header InvokeMiddleware = False"
| "writes_header InvokeHandler = False"
| "writes_header (Resp e) = (case e of SetHeader k v \<Rightarrow> False | WriteHeader k \<Rightarrow> True | Write b \<Rightarrow> True)"
| "writes_header (HttpError m k) = True"
| "writes_header (HttpRedirect u k) = True"
| "writes_header HttpNotFound = True"

text \<open>The allowed methods as they should be: sorted, without duplicates, and joined.\<close>

definition allowed_ok :: "string list \<Rightarrow> string \<Rightarrow> bool" where
  "allowed_ok s str = (sorted s \<and> distinct s \<and> str = Join s '','')"

section \<open>Examples used to instantiate the theorems\<close>

definition demo_units :: "unit_fn list" where
  "demo_units =
     [Some (\<lambda>_. Do (Write ''a'') (CallNext (CallNext (Do (Write ''a2'') Return) (Do (Write ''a3'') Return)) Return)),
      Some (\<lambda>_. Do (Write ''b'') (CallNext (Do (Write ''b2'') Return) Return)),
      Some (\<lambda>v. Do (Write (GetMatchPath v)) Return)]"

definition demo_req :: Request where
  "demo_req = \<lparr>Req_Method = ''GET'', Req_URL = \<lparr>URL_Path = ''/a'', URL_RawQuery = []\<rparr>\<rparr>"

definition demo_ctx :: reqContext where
  "demo_ctx = \<lparr>req = demo_req, pathParam = [], middlewares = demo_units, curMW = 0, matchPath = ''/a''\<rparr>"

definition demo_handler :: Handler where
  "demo_handler = (\<lambda>rq ps. HDo (Write ''h'') HReturn)"

definition demo_mw :: mw_fn where
  "demo_mw = Some (\<lambda>v. Do (SetHeader ''X-Seen'' ''1'') Return)"

text \<open>
  A router for the examples: a route matches a request with the same method and the
  same path, and the redirect signal is given when the path with its final slash
  toggled is registered for the method.
\<close>

fun find_route :: "(string \<times> string \<times> 'v) list \<Rightarrow> string \<Rightarrow> string \<Rightarrow> 'v option" where
  "find_route [] m p = None"
| "find_route ((m', p', v) # rs) m p = (if m' = m \<and> p' = p then Some v else find_route rs m p)"

definition demo_lookup :: "(string \<times> string \<times> 'v) list \<Rightarrow> string \<Rightarrow> string \<Rightarrow> 'v option \<times> UrlParam list \<times> bool" where
  "demo_lookup rs m p =
     (case find_route rs m p of
        Some v \<Rightarrow> (Some v, [], False)
      | None \<Rightarrow>
          (None, [],
           (case toggle_slash p of
              Returns q \<Rightarrow> (case find_route rs m q of None \<Rightarrow> False | Some _ \<Rightarrow> True)
            | Panics _ \<Rightarrow> False)))"

definition demo_ext :: "'v ext" where
  "demo_ext = \<lparr>Lookup = demo_lookup, LogIdContextKey = ''K_LOGID''\<rparr>"

definition demo_faulty_units :: "unit_fn list" where
  "demo_faulty_units =
     [Some (\<lambda>_. Do (Write ''a'') (CallNext Return Return)),
      Some (\<lambda>_. Do (WriteHeader 500) (Raise (PanicValue ''boom'')))]"

definition demo_heap :: heap where
  "demo_heap = [demo_units, demo_faulty_units]"

definition demo_engine :: engine where
  "demo_engine =
     \<lparr>eng_r = [(''GET'', ''/a'', \<lparr>rv_middlewares = \<lparr>arr = 0, off = 0, len = 3, cap = 3\<rparr>, rv_matchPath = ''/a''\<rparr>),
               (''GET'', ''/boom'', \<lparr>rv_middlewares = \<lparr>arr = 1, off = 0, len = 2, cap = 2\<rparr>, rv_matchPath = ''/boom''\<rparr>)],
      allowedMethods_s = [''GET''], allowedMethods_str = ''GET''\<rparr>"

definition demo_faulty_handler :: Handler where
  "demo_faulty_handler = (\<lambda>rq ps. HDo (WriteHeader 500) (HRaise (PanicValue ''boom'')))"

definition demo_srv :: server_engine where
  "demo_srv = \<lparr>srv_r = [(''GET'', ''/a'', Some demo_handler), (''GET'', ''/boom'', Some demo_faulty_handler)],
     srv_middlewares = [], srv_allowedMethods_s = [''GET''], srv_allowedMethods_str = ''GET''\<rparr>"

definition req_of :: "string \<Rightarrow> string \<Rightarrow> Request" where
  "req_of m p = \<lparr>Req_Method = m, Req_URL = \<lparr>URL_Path = p, URL_RawQuery = ''q=1''\<rparr>\<rparr>"


definition demo_looping_mw :: mw_fn where
  "demo_looping_mw = Some (\<lambda>v. CallNext Return Return)"

definition demo_ec :: engineContext where
  "demo_ec = \<lparr>ec_req = demo_req, ec_pathParam = [], ec_engine = demo_srv, ec_handler = demo_handler,
     ec_curMW = [demo_mw]\<rparr>"

text \<open>
  Registrations: the capacity of a new array (doubling), nodes and groups. The slice of
  \<open>grown_group\<close> has three middlewares in an array of four cells, as three calls of
  \<^verbatim>\<open>append\<close> on an empty slice leave it. \<open>node_a\<close> and \<open>node_b\<close> are given the same
  slice, of one middleware in an array of two cells.
\<close>

definition demo_grow :: "nat \<Rightarrow> nat \<Rightarrow> nat" where
  "demo_grow c n = 2 * c"

definition demo_nodes :: "Node list" where
  "demo_nodes =
     [\<lparr>Method = ''POST'', Path = ''/b'', Middlewares = nil_slice, Handler = Some (\<lambda>_. Return)\<rparr>,
      \<lparr>Method = ''GET'', Path = ''/a'', Middlewares = nil_slice, Handler = Some (\<lambda>_. Return)\<rparr>,
      \<lparr>Method = ''POST'', Path = ''/c'', Middlewares = nil_slice, Handler = Some (\<lambda>_. Return)\<rparr>]"

definition demo_regs :: "(string \<times> string \<times> Handler option) list" where
  "demo_regs = [(''POST'', ''/b'', Some demo_handler), (''GET'', ''/a'', Some demo_handler),
                (''POST'', ''/c'', Some demo_handler)]"

definition unit_L :: unit_fn where
  "unit_L = Some (\<lambda>_. Do (SetHeader ''X-Log'' ''1'') (CallNext Return Return))"

definition unit_M :: unit_fn where
  "unit_M = Some (\<lambda>_. Do (SetHeader ''X-Auth'' ''1'') (CallNext Return Return))"

definition unit_N :: unit_fn where
  "unit_N = Some (\<lambda>_. Do (SetHeader ''X-Gzip'' ''1'') (CallNext Return Return))"

definition unit_users :: unit_fn where
  "unit_users = Some (\<lambda>_. Do (Write ''users'') Return)"

definition unit_posts :: unit_fn where
  "unit_posts = Some (\<lambda>_. Do (Write ''posts'') Return)"

definition spec_group :: Group where
  "spec_group =
     \<lparr>RootPath = ''/api'', Group_Middlewares = \<lparr>arr = 0, off = 0, len = 1, cap = 1\<rparr>,
      Children = [\<lparr>Method = ''GET'', Path = ''/users'',
                   Middlewares = \<lparr>arr = 1, off = 0, len = 1, cap = 1\<rparr>, Handler = unit_users\<rparr>]\<rparr>"

definition grown_group :: Group where
  "grown_group =
     \<lparr>RootPath = ''/api'', Group_Middlewares = \<lparr>arr = 0, off = 0, len = 3, cap = 4\<rparr>,
      Children = [\<lparr>Method = ''GET'', Path = ''/users'', Middlewares = nil_slice, Handler = unit_users\<rparr>,
                  \<lparr>Method = ''GET'', Path = ''/posts'', Middlewares = nil_slice, Handler = unit_posts\<rparr>]\<rparr>"

definition shared_slice :: slice where
  "shared_slice = \<lparr>arr = 0, off = 0, len = 1, cap = 2\<rparr>"

definition node_a :: Node where
  "node_a = \<lparr>Method = ''GET'', Path = ''/a'', Middlewares = shared_slice, Handler = unit_users\<rparr>"

definition node_b :: Node where
  "node_b = \<lparr>Method = ''GET'', Path = ''/b'', Middlewares = shared_slice, Handler = None\<rparr>"

definition engine_a :: engine where
  "engine_a =
     \<lparr>eng_r = [(''GET'', ''/a'', \<lparr>rv_middlewares = \<lparr>arr = 0, off = 0, len = 2, cap = 2\<rparr>, rv_matchPath = ''/a''\<rparr>)],
      allowedMethods_s = [''GET''], allowedMethods_str = ''GET''\<rparr>"

section \<open>The cursor of a reqContext\<close>

lemma within_refl: "curMW c \<le> length (middlewares c) \<Longrightarrow> within c w (c, w)"
  unfolding within_def by (rule exI[of _ "curMW c"], rule exI[of _ "[]"]) simp

lemma within_trans:
  assumes "within c w (c1, w1)" and "within c1 w1 s"
  shows "within c w s"
proof -
  from assms(1) obtain n d where 1: "c1 = c\<lparr>curMW := n\<rparr>" "w1 = w @ d" "curMW c \<le> n"
    "n \<le> length (middlewares c)" "list_all (chain_event (length (middlewares c))) d"
    unfolding within_def by auto
  from assms(2) obtain m e where 2: "s = (c1\<lparr>curMW := m\<rparr>, w1 @ e)" "curMW c1 \<le> m"
    "m \<le> length (middlewares c1)" "list_all (chain_event (length (middlewares c1))) e"
    unfolding within_def by auto
  have "s = (c\<lparr>curMW := m\<rparr>, w @ (d @ e))" using 1 2 by simp
  moreover have "curMW c \<le> m" "m \<le> length (middlewares c)" using 1 2 by simp_all
  moreover have "list_all (chain_event (length (middlewares c))) (d @ e)" using 1 2 by simp
  ultimately show ?thesis unfolding within_def by blast
qed

lemma within_Resp:
  assumes "within c (w @ [Resp e]) s"
  shows "within c w s"
proof -
  from assms obtain n d where 1: "s = (c\<lparr>curMW := n\<rparr>, (w @ [Resp e]) @ d)"
    "curMW c \<le> n" "n \<le> length (middlewares c)"
    "list_all (chain_event (length (middlewares c))) d"
    unfolding within_def by auto
  have "s = (c\<lparr>curMW := n\<rparr>, w @ (Resp e # d))" using 1 by simp
  moreover have "list_all (chain_event (length (middlewares c))) (Resp e # d)"
    using 1 by simp
  ultimately show ?thesis using 1(2,3) unfolding within_def by blast
qed

lemma within_Invoke:
  assumes "curMW c < length (middlewares c)"
    and "within (c\<lparr>curMW := Suc (curMW c)\<rparr>) (w @ [Invoke (curMW c)]) s"
  shows "within c w s"
proof -
  from assms(2) obtain n d where 1: "s = (c\<lparr>curMW := n\<rparr>, (w @ [Invoke (curMW c)]) @ d)"
    "Suc (curMW c) \<le> n" "n \<le> length (middlewares c)"
    "list_all (chain_event (length (middlewares c))) d"
    unfolding within_def by auto
  have "s = (c\<lparr>curMW := n\<rparr>, w @ (Invoke (curMW c) # d))" using 1 by simp
  moreover have "curMW c \<le> n" using 1 by simp
  moreover have "list_all (chain_event (length (middlewares c))) (Invoke (curMW c) # d)"
    using 1 assms(1) by simp
  ultimately show ?thesis using 1(3) unfolding within_def by blast
qed

lemma Next_run_within:
  "curMW c \<le> length (middlewares c) \<Longrightarrow> within c w (fst (reqContext_Next c w))"
  "curMW c \<le> length (middlewares c) \<Longrightarrow> within c w (fst (run p c w))"
proof (induction c w and p c w rule: reqContext_Next_run.induct)
  case (1 c w)
  show ?case
  proof (cases "length (middlewares c) \<le> curMW c")
    case True
    with 1 show ?thesis by (simp add: within_refl)
  next
    case False
    then have lt: "curMW c < length (middlewares c)" by simp
    then have ix: "index (middlewares c) (curMW c + 1 - 1) = Returns (middlewares c ! curMW c)"
      by (simp add: index_def)
    from 1(1)[OF False ix] lt
    have "within (c\<lparr>curMW := curMW c + 1\<rparr>) (w @ [Invoke (curMW c + 1 - 1)])
             (fst (run (call_unit (middlewares c ! curMW c) (view c)) (c\<lparr>curMW := curMW c + 1\<rparr>) (w @ [Invoke (curMW c + 1 - 1)])))"
      by simp
    then have "within c w (fst (run (call_unit (middlewares c ! curMW c) (view c)) (c\<lparr>curMW := curMW c + 1\<rparr>) (w @ [Invoke (curMW c + 1 - 1)])))"
      using within_Invoke[OF lt] by simp
    then show ?thesis using False ix
      by (cases "run (call_unit (middlewares c ! curMW c) (view c)) (c\<lparr>curMW := Suc (curMW c)\<rparr>) (w @ [Invoke (curMW c)])")
         (auto split: outcome.splits)
  qed
next
  case (2 c w)
  then show ?case by (simp add: within_refl)
next
  case (3 e p c w)
  then show ?case by (simp add: within_Resp)
next
  case (4 f c w)
  then show ?case by (simp add: within_refl)
next
  case (5 pt pf c w)
  from 5(1)[OF 5(3)] have a: "within c w (fst (reqContext_Next c w))" .
  show ?case
  proof (cases "reqContext_Next c w")
    case (Pair s out)
    obtain c' w' where s: "s = (c', w')" by (cases s)
    show ?thesis
    proof (cases out)
      case (Returns b)
      from a Pair s have w1: "within c w (c', w')" by simp
      then have "curMW c' \<le> length (middlewares c')" unfolding within_def by auto
      from 5(2)[OF Pair[symmetric] s[symmetric] Returns this]
      have "within c' w' (fst (run (if b then pt else pf) c' w'))" .
      with w1 have "within c w (fst (run (if b then pt else pf) c' w'))"
        by (rule within_trans)
      then show ?thesis using Pair s Returns by simp
    next
      case (Panics f)
      with a Pair s show ?thesis by simp
    qed
  qed
qed


lemma within_fields:
  "within c w (c', w') \<Longrightarrow> middlewares c' = middlewares c \<and> view c' = view c \<and> curMW c' \<le> length (middlewares c')"
  unfolding within_def view_def by auto

lemma Next_run_returns:
  "curMW c \<le> length (middlewares c) \<Longrightarrow> \<forall>u\<in>set (middlewares c). panic_free (call_unit u (view c)) \<Longrightarrow>
     snd (reqContext_Next c w) = Returns (curMW c < length (middlewares c))"
  "curMW c \<le> length (middlewares c) \<Longrightarrow> \<forall>u\<in>set (middlewares c). panic_free (call_unit u (view c)) \<Longrightarrow>
     panic_free p \<Longrightarrow> snd (run p c w) = Returns ()"
proof (induction c w and p c w rule: reqContext_Next_run.induct)
  case (1 c w)
  show ?case
  proof (cases "length (middlewares c) \<le> curMW c")
    case True
    then show ?thesis by simp
  next
    case False
    then have lt: "curMW c < length (middlewares c)" by simp
    then have ix: "index (middlewares c) (curMW c + 1 - 1) = Returns (middlewares c ! curMW c)"
      by (simp add: index_def)
    have pf: "panic_free (call_unit (middlewares c ! curMW c) (view c))"
      using 1(3) lt by simp
    have v: "view (c\<lparr>curMW := curMW c + 1\<rparr>) = view c" by (simp add: view_def)
    from 1(1)[OF False ix] lt 1(3) pf v
    have "snd (run (call_unit (middlewares c ! curMW c) (view c)) (c\<lparr>curMW := curMW c + 1\<rparr>) (w @ [Invoke (curMW c + 1 - 1)])) = Returns ()"
      by simp
    then show ?thesis using False ix lt
      by (cases "run (call_unit (middlewares c ! curMW c) (view c)) (c\<lparr>curMW := Suc (curMW c)\<rparr>) (w @ [Invoke (curMW c)])")
         (auto split: outcome.splits)
  qed
next
  case (5 pt pf c w)
  from 5(1)[OF 5(3,4)] have a: "snd (reqContext_Next c w) = Returns (curMW c < length (middlewares c))" .
  obtain c' w' out where nx: "reqContext_Next c w = ((c', w'), out)"
    by (metis surj_pair)
  with a have out: "out = Returns (curMW c < length (middlewares c))" by simp
  from Next_run_within(1)[OF 5(3), of w] nx have "within c w (c', w')" by simp
  from within_fields[OF this] 5(4)
  have f: "curMW c' \<le> length (middlewares c')" "\<forall>u\<in>set (middlewares c'). panic_free (call_unit u (view c'))"
    by auto
  have "panic_free (if curMW c < length (middlewares c) then pt else pf)" using 5(5) by simp
  from 5(2)[OF nx[symmetric] refl out f this]
  show ?case using nx out by simp
qed simp_all

text \<open>
  From any cursor that is not beyond the length of the chain (a context is built by
  dispatch with the cursor at 0), a call of \<open>Next\<close>, with all the calls of \<open>Next\<close> that
  the units make inside it, changes nothing of the context but the cursor, never moves
  the cursor back nor beyond the length, and reads the chain only at indices below the
  length. When no unit of the chain panics, it returns.
\<close>

lemma cursor_stays_within_chain:
  assumes "curMW c \<le> length (middlewares c)"
  shows "\<exists>n d out. reqContext_Next c w = ((c\<lparr>curMW := n\<rparr>, w @ d), out) \<and>
           curMW c \<le> n \<and> n \<le> length (middlewares c) \<and>
           (\<forall>i. Invoke i \<in> set d \<longrightarrow> i < length (middlewares c)) \<and>
           ((\<forall>u\<in>set (middlewares c). panic_free (call_unit u (view c))) \<longrightarrow>
              out = Returns (curMW c < length (middlewares c)))"
proof -
  from Next_run_within(1)[OF assms, of w]
  obtain n d where 1: "fst (reqContext_Next c w) = (c\<lparr>curMW := n\<rparr>, w @ d)" "curMW c \<le> n"
     "n \<le> length (middlewares c)" "list_all (chain_event (length (middlewares c))) d"
    unfolding within_def by auto
  from 1(4) have 2: "\<forall>i. Invoke i \<in> set d \<longrightarrow> i < length (middlewares c)"
    by (auto simp: list_all_iff)
  have "reqContext_Next c w = ((c\<lparr>curMW := n\<rparr>, w @ d), snd (reqContext_Next c w))"
    using 1(1) by (metis prod.collapse)
  with 1(2,3) 2 Next_run_returns(1)[OF assms, of w] show ?thesis by blast
qed


text \<open>
  A panic that comes out of \<open>Next\<close> started in the call of a nil unit of the chain or
  at a \<^verbatim>\<open>panic\<close> in the body of one of its units: the index expression never fails.
\<close>

lemma panic_origin_unit:
  "u \<in> set (middlewares c) \<Longrightarrow> raises (call_unit u (view c)) f \<Longrightarrow> panic_origin c f"
  by (cases u) (auto simp: panic_origin_def call_unit_def list_ex_iff split: option.splits)

lemma panic_origin_within:
  "within c w (c', w') \<Longrightarrow> panic_origin c' f = panic_origin c f"
  unfolding within_def panic_origin_def view_def by auto

lemma Next_run_panic_origin:
  "curMW c \<le> length (middlewares c) \<Longrightarrow> snd (reqContext_Next c w) = Panics f \<Longrightarrow> panic_origin c f"
  "curMW c \<le> length (middlewares c) \<Longrightarrow> snd (run p c w) = Panics f \<Longrightarrow> raises p f \<or> panic_origin c f"
proof (induction c w and p c w rule: reqContext_Next_run.induct)
  case (1 c w)
  show ?case
  proof (cases "length (middlewares c) \<le> curMW c")
    case True
    with 1(3) show ?thesis by simp
  next
    case False
    then have lt: "curMW c < length (middlewares c)" by simp
    then have ix: "index (middlewares c) (curMW c + 1 - 1) = Returns (middlewares c ! curMW c)"
      by (simp add: index_def)
    let ?u = "middlewares c ! curMW c"
    let ?c = "c\<lparr>curMW := curMW c + 1\<rparr>"
    let ?r = "run (call_unit ?u (view c)) ?c (w @ [Invoke (curMW c + 1 - 1)])"
    have "snd ?r = Panics f"
      using 1(3) False ix by (cases ?r) (auto split: outcome.splits)
    moreover have "curMW ?c \<le> length (middlewares ?c)" using lt by simp
    ultimately have "raises (call_unit ?u (view c)) f \<or> panic_origin ?c f"
      using 1(1)[OF False ix] by blast
    moreover have "view ?c = view c" by (simp add: view_def)
    then have "panic_origin ?c f = panic_origin c f"
      by (simp add: panic_origin_def cong: option.case_cong)
    moreover have "?u \<in> set (middlewares c)" using lt by simp
    ultimately show ?thesis using panic_origin_unit by blast
  qed
next
  case (5 pt pf c w)
  obtain c' w' out where nx: "reqContext_Next c w = ((c', w'), out)" by (metis surj_pair)
  from Next_run_within(1)[OF 5(3), of w] nx have wi: "within c w (c', w')" by simp
  show ?case
  proof (cases out)
    case (Panics g)
    with nx 5(4) have "g = f" by simp
    with nx Panics 5(1)[OF 5(3)] show ?thesis by simp
  next
    case (Returns b)
    with nx 5(4) have "snd (run (if b then pt else pf) c' w') = Panics f" by simp
    moreover have "curMW c' \<le> length (middlewares c')" using within_fields[OF wi] by blast
    ultimately have "raises (if b then pt else pf) f \<or> panic_origin c' f"
      using 5(2)[OF nx[symmetric] refl Returns] by blast
    with panic_origin_within[OF wi] show ?thesis by (auto split: if_splits)
  qed
qed simp_all



section \<open>Next\<close>

lemma srv_run_plain:
  "\<not> calls_next p \<Longrightarrow>
     srv_run n p c w = Some (case run_plain (plain_part p) w of (w', out) \<Rightarrow> ((c, w'), out))"
  by (induction p arbitrary: w) simp_all

text \<open>
  In \<^verbatim>\<open>server.go\<close> a middleware whose body starts by calling \<open>Next\<close> is entered again
  by that call, at the same cursor: no amount of fuel lets the call return.
\<close>

lemma engineContext_Next_reenters:
  "ec_curMW d = m # ms \<Longrightarrow> call_mw m (ec_req d, ec_pathParam d) = CallNext pt pf \<Longrightarrow>
     engineContext_Next n d w = None"
  by (induction n arbitrary: w) simp_all

text \<open>
  C1 (amended). \<open>reqContext_Next\<close>: with the cursor at the end of the chain it returns
  false with the context and the events as they were; otherwise the unit at the cursor
  is invoked with the context, whose cursor is already one further, and \<open>Next\<close> returns
  true when the unit returns (the unit's panic goes through it). \<open>engineContext_Next\<close>
  of \<^verbatim>\<open>server.go\<close>: with the cursor at the end (nil) it invokes the handler of the
  route and returns false; otherwise it invokes the middleware at the cursor, and when
  that middleware returns without a call of \<open>Next\<close> of its own, the cursor is one
  further and \<open>Next\<close> returns true.
\<close>

theorem Next_advances:
  "(length (middlewares c) \<le> curMW c \<longrightarrow> reqContext_Next c w = ((c, w), Returns False)) \<and>
   (curMW c' < length (middlewares c') \<longrightarrow>
      (\<exists>s out. run (call_unit (middlewares c' ! curMW c') (view c')) (c'\<lparr>curMW := curMW c' + 1\<rparr>)
                   (w @ [Invoke (curMW c')]) = (s, out) \<and>
         reqContext_Next c' w = (s, case out of Returns _ \<Rightarrow> Returns True | Panics f \<Rightarrow> Panics f))) \<and>
   (ec_curMW d = [] \<longrightarrow>
      (\<exists>w' out. run_plain (ec_handler d (ec_req d) (ec_pathParam d)) (w @ [InvokeHandler]) = (w', out) \<and>
         engineContext_Next (Suc n) d w =
           Some ((d, w'), case out of Returns _ \<Rightarrow> Returns False | Panics f \<Rightarrow> Panics f))) \<and>
   (ec_curMW d' = m # ms \<and> \<not> calls_next (call_mw m (ec_req d', ec_pathParam d')) \<longrightarrow>
      (\<exists>w' out. run_plain (plain_part (call_mw m (ec_req d', ec_pathParam d'))) (w @ [InvokeMiddleware]) = (w', out) \<and>
         engineContext_Next (Suc n) d' w =
           Some (case out of Returns _ \<Rightarrow> ((d'\<lparr>ec_curMW := ms\<rparr>, w'), Returns True)
                           | Panics f \<Rightarrow> ((d', w'), Panics f))))"
proof (intro conjI impI)
  assume "length (middlewares c) \<le> curMW c"
  then show "reqContext_Next c w = ((c, w), Returns False)" by simp
next
  assume lt: "curMW c' < length (middlewares c')"
  obtain s out where r: "run (call_unit (middlewares c' ! curMW c') (view c')) (c'\<lparr>curMW := curMW c' + 1\<rparr>)
                   (w @ [Invoke (curMW c')]) = (s, out)"
    by (metis surj_pair)
  with lt have "reqContext_Next c' w = (s, case out of Returns _ \<Rightarrow> Returns True | Panics f \<Rightarrow> Panics f)"
    by (simp add: index_def split: outcome.splits)
  with r show "\<exists>s out. run (call_unit (middlewares c' ! curMW c') (view c')) (c'\<lparr>curMW := curMW c' + 1\<rparr>)
                   (w @ [Invoke (curMW c')]) = (s, out) \<and>
         reqContext_Next c' w = (s, case out of Returns _ \<Rightarrow> Returns True | Panics f \<Rightarrow> Panics f)"
    by blast
next
  assume e: "ec_curMW d = []"
  obtain w' out where r: "run_plain (ec_handler d (ec_req d) (ec_pathParam d)) (w @ [InvokeHandler]) = (w', out)"
    by (metis surj_pair)
  with e have "engineContext_Next (Suc n) d w =
           Some ((d, w'), case out of Returns _ \<Rightarrow> Returns False | Panics f \<Rightarrow> Panics f)"
    by (simp split: outcome.splits)
  with r show "\<exists>w' out. run_plain (ec_handler d (ec_req d) (ec_pathParam d)) (w @ [InvokeHandler]) = (w', out) \<and>
         engineContext_Next (Suc n) d w =
           Some ((d, w'), case out of Returns _ \<Rightarrow> Returns False | Panics f \<Rightarrow> Panics f)"
    by blast
next
  assume a: "ec_curMW d' = m # ms \<and> \<not> calls_next (call_mw m (ec_req d', ec_pathParam d'))"
  obtain w' out where r: "run_plain (plain_part (call_mw m (ec_req d', ec_pathParam d'))) (w @ [InvokeMiddleware]) = (w', out)"
    by (metis surj_pair)
  with a have "engineContext_Next (Suc n) d' w =
           Some (case out of Returns _ \<Rightarrow> ((d'\<lparr>ec_curMW := ms\<rparr>, w'), Returns True)
                           | Panics f \<Rightarrow> ((d', w'), Panics f))"
    by (simp add: srv_run_plain split: outcome.splits)
  with r show "\<exists>w' out. run_plain (plain_part (call_mw m (ec_req d', ec_pathParam d'))) (w @ [InvokeMiddleware]) = (w', out) \<and>
         engineContext_Next (Suc n) d' w =
           Some (case out of Returns _ \<Rightarrow> ((d'\<lparr>ec_curMW := ms\<rparr>, w'), Returns True)
                           | Panics f \<Rightarrow> ((d', w'), Panics f))"
    by blast
qed

theorem Next_advances_witness:
  "length (middlewares (demo_ctx\<lparr>curMW := 3\<rparr>)) \<le> curMW (demo_ctx\<lparr>curMW := 3\<rparr>) \<and>
   reqContext_Next (demo_ctx\<lparr>curMW := 3\<rparr>) [] = ((demo_ctx\<lparr>curMW := 3\<rparr>, []), Returns False) \<and>
   curMW (demo_ctx\<lparr>curMW := 2\<rparr>) < length (middlewares (demo_ctx\<lparr>curMW := 2\<rparr>)) \<and>
   reqContext_Next (demo_ctx\<lparr>curMW := 2\<rparr>) [] =
     ((demo_ctx\<lparr>curMW := 3\<rparr>, [Invoke 2, Resp (Write ''/a'')]), Returns True) \<and>
   ec_curMW (demo_ec\<lparr>ec_curMW := []\<rparr>) = [] \<and>
   engineContext_Next (Suc 0) (demo_ec\<lparr>ec_curMW := []\<rparr>) [] =
     Some ((demo_ec\<lparr>ec_curMW := []\<rparr>, [InvokeHandler, Resp (Write ''h'')]), Returns False) \<and>
   ec_curMW demo_ec = demo_mw # [] \<and> \<not> calls_next (call_mw demo_mw (ec_req demo_ec, ec_pathParam demo_ec)) \<and>
   engineContext_Next (Suc 0) demo_ec [] =
     Some ((demo_ec\<lparr>ec_curMW := []\<rparr>, [InvokeMiddleware, Resp (SetHeader ''X-Seen'' ''1'')]), Returns True)"
  using Next_advances[of "demo_ctx\<lparr>curMW := 3\<rparr>" "[]" "demo_ctx\<lparr>curMW := 2\<rparr>" "demo_ec\<lparr>ec_curMW := []\<rparr>" 0 demo_ec demo_mw "[]"]
  by (simp add: demo_ctx_def demo_units_def demo_req_def demo_ec_def demo_mw_def demo_handler_def
        index_def call_unit_def call_mw_def view_def)

text \<open>
  C1 as stated fails for \<open>engineContext_Next\<close>: at the end of the chain it invokes a
  unit, the handler, whose writes are in the events afterwards.
\<close>

theorem Next_at_end_counterexample:
  "ec_curMW (demo_ec\<lparr>ec_curMW := []\<rparr>) = [] \<and>
   engineContext_Next (Suc 0) (demo_ec\<lparr>ec_curMW := []\<rparr>) [] =
     Some ((demo_ec\<lparr>ec_curMW := []\<rparr>, [InvokeHandler, Resp (Write ''h'')]), Returns False) \<and>
   engineContext_Next (Suc 0) (demo_ec\<lparr>ec_curMW := []\<rparr>) [] \<noteq>
     Some ((demo_ec\<lparr>ec_curMW := []\<rparr>, []), Returns False)"
  by (simp add: demo_ec_def demo_handler_def)


section \<open>ServeHTTP\<close>

lemma methodRegister_iff: "methodRegister xs m \<longleftrightarrow> m \<in> set xs"
  by (induction xs) auto

lemma toggle_slash_nonempty: "p \<noteq> [] \<Longrightarrow> \<exists>q. toggle_slash p = Returns q"
  by (simp add: toggle_slash_def)

lemma recover_panic_returns: "snd (recover_panic r) = Returns ()"
  by (cases r) (auto simp: recover_panic_def split: outcome.splits)

lemma dispatch_returns: "snd (dispatch v x h e rq w) = Returns ()"
  by (auto simp: dispatch_def toggle_slash_def recover_panic_returns
      split: prod.splits option.splits outcome.splits)

lemma server_dispatch_returns: "server_dispatch n x e rq w = Some r \<Longrightarrow> snd r = Returns ()"
  by (auto simp: server_dispatch_def toggle_slash_def recover_panic_returns
      split: prod.splits option.splits outcome.splits if_splits)

text \<open>
  C2. A request whose method is not among the allowed methods gets the \<^verbatim>\<open>Allow\<close>
  header set to the precomputed string and a 405 through \<^verbatim>\<open>http.Error\<close>, and
  nothing else happens before the deferred func: no lookup and no unit is invoked,
  whatever the path is. In both engines.
\<close>

theorem method_gate:
  "(Req_Method rq \<notin> set (allowedMethods_s e) \<longrightarrow>
      ServeHTTP v x h e logId rq =
        ([TraceReq rq, Resp (SetHeader ''Allow'' (allowedMethods_str e)),
          HttpError ''Method Not Allowed'' 405,
          Resp (SetHeader (LogIdContextKey x) logId), TraceResp], Returns ())) \<and>
   (Req_Method rq \<notin> set (srv_allowedMethods_s e0) \<longrightarrow>
      server_ServeHTTP n x0 e0 logId rq =
        Some ([TraceReq rq, Resp (SetHeader ''Allow'' (srv_allowedMethods_str e0)),
               HttpError ''Method Not Allowed'' 405,
               Resp (SetHeader (LogIdContextKey x0) logId), TraceResp], Returns ()))"
  by (simp add: ServeHTTP_def dispatch_def server_ServeHTTP_def server_dispatch_def methodRegister_iff)

theorem method_gate_witness:
  "''PUT'' \<notin> set (allowedMethods_s demo_engine) \<and>
   ServeHTTP revision_root demo_ext demo_heap demo_engine ''id1'' (req_of ''PUT'' ''/a'') =
     ([TraceReq (req_of ''PUT'' ''/a''), Resp (SetHeader ''Allow'' ''GET''),
       HttpError ''Method Not Allowed'' 405, Resp (SetHeader ''K_LOGID'' ''id1''), TraceResp], Returns ()) \<and>
   ''PUT'' \<notin> set (srv_allowedMethods_s demo_srv) \<and>
   server_ServeHTTP 0 demo_ext demo_srv ''id1'' (req_of ''PUT'' ''/a'') =
     Some ([TraceReq (req_of ''PUT'' ''/a''), Resp (SetHeader ''Allow'' ''GET''),
       HttpError ''Method Not Allowed'' 405, Resp (SetHeader ''K_LOGID'' ''id1''), TraceResp], Returns ())"
  using method_gate[of "req_of ''PUT'' ''/a''" demo_engine revision_root demo_ext demo_heap "''id1''" demo_srv 0 demo_ext]
  by (simp add: demo_engine_def demo_srv_def req_of_def demo_ext_def)


lemma chain_event_not_critical: "chain_event n ev \<Longrightarrow> \<not> is_critical ev"
  by (cases ev) simp_all

lemma chain_events_no_critical: "list_all (chain_event n) d \<Longrightarrow> filter is_critical d = []"
  by (induction d) (auto dest: chain_event_not_critical)

lemma Next_no_critical:
  assumes "curMW c \<le> length (middlewares c)" and "reqContext_Next c w = ((c', w'), out)"
  shows "\<exists>d. w' = w @ d \<and> filter is_critical d = []"
proof -
  from Next_run_within(1)[OF assms(1), of w] assms(2)
  obtain n d where "w' = w @ d" "list_all (chain_event (length (middlewares c))) d"
    unfolding within_def by auto
  then show ?thesis using chain_events_no_critical by blast
qed

lemma run_plain_no_critical:
  "run_plain p w = (w', out) \<Longrightarrow> \<exists>d. w' = w @ d \<and> filter is_critical d = []"
proof (induction p arbitrary: w)
  case (HDo e p)
  from HDo.prems have "run_plain p (w @ [Resp e]) = (w', out)" by simp
  from HDo.IH[OF this] obtain d where "w' = (w @ [Resp e]) @ d" "filter is_critical d = []" by blast
  then have "w' = w @ (Resp e # d) \<and> filter is_critical (Resp e # d) = []" by simp
  then show ?case by blast
qed auto

lemma srv_no_critical:
  "engineContext_Next n c w = Some ((c', w'), out) \<Longrightarrow> \<exists>d. w' = w @ d \<and> filter is_critical d = []"
  "srv_run n p c w = Some ((c', w'), out') \<Longrightarrow> \<exists>d. w' = w @ d \<and> filter is_critical d = []"
proof (induction n c w and n p c w arbitrary: c' w' out and c' w' out' rule: engineContext_Next_srv_run.induct)
  case (1 c w)
  then show ?case by simp
next
  case (2 n c w)
  show ?case
  proof (cases "ec_curMW c")
    case Nil
    obtain w1 o1 where rp: "run_plain (ec_handler c (ec_req c) (ec_pathParam c)) (w @ [InvokeHandler]) = (w1, o1)"
      by (metis surj_pair)
    with Nil 2(2) have "w' = w1" by (auto split: outcome.splits)
    with run_plain_no_critical[OF rp] obtain d where "w' = (w @ [InvokeHandler]) @ d" "filter is_critical d = []"
      by blast
    then have "w' = w @ (InvokeHandler # d) \<and> filter is_critical (InvokeHandler # d) = []" by simp
    then show ?thesis by blast
  next
    case (Cons m ms)
    from Cons 2(2) obtain c1 o1 where
      sr: "srv_run n (call_mw m (ec_req c, ec_pathParam c)) c (w @ [InvokeMiddleware]) = Some ((c1, w'), o1)"
      by (auto split: option.splits outcome.splits list.splits prod.splits)
    from 2(1)[OF Cons sr] obtain d where "w' = (w @ [InvokeMiddleware]) @ d" "filter is_critical d = []"
      by blast
    then have "w' = w @ (InvokeMiddleware # d) \<and> filter is_critical (InvokeMiddleware # d) = []" by simp
    then show ?thesis by blast
  qed
next
  case (3 n c w)
  then show ?case by simp
next
  case (4 n e p c w)
  from 4(2) have "srv_run n p c (w @ [Resp e]) = Some ((c', w'), out')" by simp
  from 4(1)[OF this] obtain d where "w' = (w @ [Resp e]) @ d" "filter is_critical d = []" by blast
  then have "w' = w @ (Resp e # d) \<and> filter is_critical (Resp e # d) = []" by simp
  then show ?case by blast
next
  case (5 n f c w)
  then show ?case by simp
next
  case (6 n pt pf c w)
  from 6(3) obtain c1 w1 o1 where nx: "engineContext_Next n c w = Some ((c1, w1), o1)"
    by (auto split: option.splits)
  from 6(1)[OF nx] obtain d1 where d1: "w1 = w @ d1" "filter is_critical d1 = []" by blast
  show ?case
  proof (cases o1)
    case (Returns b)
    with nx 6(3) have sr: "srv_run n (if b then pt else pf) c1 w1 = Some ((c', w'), out')" by simp
    from 6(2)[OF nx refl refl Returns sr] obtain d2 where "w' = w1 @ d2" "filter is_critical d2 = []"
      by blast
    with d1 have "w' = w @ (d1 @ d2) \<and> filter is_critical (d1 @ d2) = []" by simp
    then show ?thesis by blast
  next
    case (Panics f)
    with nx 6(3) have "w' = w1" by simp
    with d1 show ?thesis by blast
  qed
qed


lemma server_dispatch_completes:
  assumes "\<forall>m ms ps. srv_middlewares e = m # ms \<longrightarrow> \<not> calls_next (call_mw m (rq, ps))"
  shows "server_dispatch (Suc n) x e rq w \<noteq> None"
proof -
  have nx: "engineContext_Next (Suc n)
           \<lparr>ec_req = rq, ec_pathParam = ps, ec_engine = e, ec_handler = hdl, ec_curMW = srv_middlewares e\<rparr> w1 \<noteq> None"
    for ps hdl w1
  proof (cases "srv_middlewares e")
    case Nil
    then show ?thesis by (simp split: prod.splits outcome.splits)
  next
    case (Cons m ms)
    with assms have "\<not> calls_next (call_mw m (rq, ps))" by blast
    with Cons show ?thesis
      by (simp add: srv_run_plain split: prod.splits outcome.splits list.splits)
  qed
  obtain hv ps tsr where lk: "Lookup x (srv_r e) (Req_Method rq) (URL_Path (Req_URL rq)) = (hv, ps, tsr)"
    by (metis prod_cases3)
  show ?thesis
  proof (cases "\<exists>hdl. hv = Some (Some hdl)")
    case True
    then obtain hdl where hv: "hv = Some (Some hdl)" by blast
    from nx[of ps hdl "w @ [LookupCall (Req_Method rq) (URL_Path (Req_URL rq))]"]
    obtain r where "engineContext_Next (Suc n)
           \<lparr>ec_req = rq, ec_pathParam = ps, ec_engine = e, ec_handler = hdl, ec_curMW = srv_middlewares e\<rparr>
           (w @ [LookupCall (Req_Method rq) (URL_Path (Req_URL rq))]) = Some r"
      by blast
    with lk hv show ?thesis
      by (simp del: engineContext_Next.simps add: server_dispatch_def split: prod.splits)
  next
    case False
    with lk show ?thesis
      by (auto simp del: engineContext_Next.simps simp: server_dispatch_def toggle_slash_def
          split: option.splits)
  qed
qed

text \<open>
  Whatever branch a request takes, the last call on the response writer is the one that
  sets the log id header, and only the trace of the response follows it. The engine of
  \<^verbatim>\<open>server.go\<close> gets there whenever its \<^verbatim>\<open>ServeHTTP\<close> returns, and it returns at
  least when the first middleware, if there is one, does not call \<open>Next\<close>.
\<close>

lemma deferred_header_set_last:
  "(\<exists>w out. ServeHTTP v x h e logId rq =
       (w @ [Resp (SetHeader (LogIdContextKey x) logId), TraceResp], out)) \<and>
   (\<forall>r. server_ServeHTTP n x0 e0 logId rq = Some r \<longrightarrow>
       (\<exists>w out. r = (w @ [Resp (SetHeader (LogIdContextKey x0) logId), TraceResp], out))) \<and>
   ((\<forall>m ms ps. srv_middlewares e0 = m # ms \<longrightarrow> \<not> calls_next (call_mw m (rq, ps))) \<longrightarrow>
       server_ServeHTTP (Suc n) x0 e0 logId rq \<noteq> None)"
proof (intro conjI allI impI)
  show "\<exists>w out. ServeHTTP v x h e logId rq =
       (w @ [Resp (SetHeader (LogIdContextKey x) logId), TraceResp], out)"
    by (cases "dispatch v x h e rq [TraceReq rq]") (simp add: ServeHTTP_def)
next
  fix r assume "server_ServeHTTP n x0 e0 logId rq = Some r"
  then show "\<exists>w out. r = (w @ [Resp (SetHeader (LogIdContextKey x0) logId), TraceResp], out)"
    by (auto simp: server_ServeHTTP_def split: option.splits)
next
  assume "\<forall>m ms ps. srv_middlewares e0 = m # ms \<longrightarrow> \<not> calls_next (call_mw m (rq, ps))"
  from server_dispatch_completes[OF this, of n x0 "[TraceReq rq]"]
  show "server_ServeHTTP (Suc n) x0 e0 logId rq \<noteq> None"
    by (auto simp: server_ServeHTTP_def split: option.splits)
qed

text \<open>
  On every branch but the chain (405, empty path, 404, toggled slash) the call in front
  of the deferred header func is the \<^verbatim>\<open>net/http\<close> helper that has written the header of
  the response.
\<close>

lemma header_set_after_helper:
  assumes "\<not> (\<exists>hv ps rd. Req_Method rq \<in> set (allowedMethods_s e) \<and> URL_Path (Req_URL rq) \<noteq> [] \<and>
              Lookup x (eng_r e) (Req_Method rq) (URL_Path (Req_URL rq)) = (Some hv, ps, rd))"
  shows "\<exists>w ev. ServeHTTP v x h e logId rq =
            (w @ [ev, Resp (SetHeader (LogIdContextKey x) logId), TraceResp], Returns ()) \<and>
          writes_header ev"
proof (cases "Req_Method rq \<in> set (allowedMethods_s e)")
  case False
  then have "ServeHTTP v x h e logId rq =
      ([TraceReq rq, Resp (SetHeader ''Allow'' (allowedMethods_str e))] @
       [HttpError ''Method Not Allowed'' 405, Resp (SetHeader (LogIdContextKey x) logId), TraceResp], Returns ())"
    by (simp add: ServeHTTP_def dispatch_def methodRegister_iff)
  moreover have "writes_header (HttpError ''Method Not Allowed'' 405)" by simp
  ultimately show ?thesis by blast
next
  case m: True
  show ?thesis
  proof (cases "URL_Path (Req_URL rq) = []")
    case True
    with m have "ServeHTTP v x h e logId rq =
      ([TraceReq rq] @ [HttpRedirect (Req_URL (set_path rq (rootPath v))) 308,
         Resp (SetHeader (LogIdContextKey x) logId), TraceResp], Returns ())"
      by (simp add: ServeHTTP_def dispatch_def methodRegister_iff)
    moreover have "writes_header (HttpRedirect (Req_URL (set_path rq (rootPath v))) 308)" by simp
    ultimately show ?thesis by blast
  next
    case ne: False
    obtain hv ps rd where lk: "Lookup x (eng_r e) (Req_Method rq) (URL_Path (Req_URL rq)) = (hv, ps, rd)"
      by (metis prod_cases3)
    with assms m ne have hv: "hv = None" by (cases hv) auto
    let ?l = "LookupCall (Req_Method rq) (URL_Path (Req_URL rq))"
    show ?thesis
    proof (cases rd)
      case False
      with m ne lk hv have "ServeHTTP v x h e logId rq =
        ([TraceReq rq, ?l] @ [HttpNotFound, Resp (SetHeader (LogIdContextKey x) logId), TraceResp], Returns ())"
        by (simp add: ServeHTTP_def dispatch_def methodRegister_iff)
      moreover have "writes_header HttpNotFound" by simp
      ultimately show ?thesis by blast
    next
      case True
      from toggle_slash_nonempty[OF ne] obtain q where q: "toggle_slash (URL_Path (Req_URL rq)) = Returns q"
        by blast
      with True m ne lk hv have "ServeHTTP v x h e logId rq =
        ([TraceReq rq, ?l] @ [HttpRedirect (Req_URL (set_path rq q)) 308,
           Resp (SetHeader (LogIdContextKey x) logId), TraceResp], Returns ())"
        by (simp add: ServeHTTP_def dispatch_def methodRegister_iff)
      moreover have "writes_header (HttpRedirect (Req_URL (set_path rq q)) 308)" by simp
      ultimately show ?thesis by blast
    qed
  qed
qed

text \<open>
  In \<^verbatim>\<open>server.go\<close>, a matched request whose first middleware starts by calling
  \<open>Next\<close> never leaves \<^verbatim>\<open>ServeHTTP\<close>, whatever the fuel: the deferred func does not run.
\<close>

lemma server_ServeHTTP_reenters:
  assumes "Req_Method rq \<in> set (srv_allowedMethods_s e)" and "URL_Path (Req_URL rq) \<noteq> []"
    and "Lookup x (srv_r e) (Req_Method rq) (URL_Path (Req_URL rq)) = (Some (Some hdl), ps, tsr)"
    and "srv_middlewares e = m # ms" and "call_mw m (rq, ps) = CallNext pt pf"
  shows "server_ServeHTTP n x e logId rq = None"
proof -
  have "engineContext_Next n
          \<lparr>ec_req = rq, ec_pathParam = ps, ec_engine = e, ec_handler = hdl, ec_curMW = srv_middlewares e\<rparr>
          ([TraceReq rq] @ [LookupCall (Req_Method rq) (URL_Path (Req_URL rq))]) = None"
    by (rule engineContext_Next_reenters[where m = m and ms = ms and pt = pt and pf = pf])
       (simp_all add: assms)
  with assms(1-3) show ?thesis
    by (simp del: engineContext_Next.simps
        add: server_ServeHTTP_def server_dispatch_def methodRegister_iff)
qed

text \<open>
  C9 at a request whose method is not registered (\<^verbatim>\<open>PUT /a\<close> on an engine that knows
  \<^verbatim>\<open>GET\<close>), in both engines: the log id header is set, but behind \<^verbatim>\<open>http.Error\<close>,
  which has written the header of the 405 response; what is set up to that call is the
  \<^verbatim>\<open>Allow\<close> header alone, so the response does not carry the log id. And at a matched
  request of \<^verbatim>\<open>server.go\<close> with a middleware that calls \<open>Next\<close>: no response completes.
\<close>

theorem log_id_header_set_too_late:
  "ServeHTTP revision_root demo_ext demo_heap demo_engine ''id1'' (req_of ''PUT'' ''/a'') =
     ([TraceReq (req_of ''PUT'' ''/a''), Resp (SetHeader ''Allow'' ''GET''),
       HttpError ''Method Not Allowed'' 405, Resp (SetHeader ''K_LOGID'' ''id1''), TraceResp], Returns ()) \<and>
   takeWhile (\<lambda>ev. \<not> writes_header ev)
     [TraceReq (req_of ''PUT'' ''/a''), Resp (SetHeader ''Allow'' ''GET''),
      HttpError ''Method Not Allowed'' 405, Resp (SetHeader ''K_LOGID'' ''id1''), TraceResp] =
     [TraceReq (req_of ''PUT'' ''/a''), Resp (SetHeader ''Allow'' ''GET'')] \<and>
   server_ServeHTTP 0 demo_ext demo_srv ''id1'' (req_of ''PUT'' ''/a'') =
     Some ([TraceReq (req_of ''PUT'' ''/a''), Resp (SetHeader ''Allow'' ''GET''),
       HttpError ''Method Not Allowed'' 405, Resp (SetHeader ''K_LOGID'' ''id1''), TraceResp], Returns ()) \<and>
   server_ServeHTTP 7 demo_ext (AppendMiddleware demo_srv demo_looping_mw) ''id2'' (req_of ''GET'' ''/a'') = None"
  by (simp add: ServeHTTP_def dispatch_def server_ServeHTTP_def server_dispatch_def
        demo_engine_def demo_srv_def req_of_def demo_ext_def demo_lookup_def AppendMiddleware_def
        demo_looping_mw_def call_mw_def engineContext_Next_reenters)

lemma dispatch_lookup_first:
  "methodRegister (allowedMethods_s e) (Req_Method rq) \<Longrightarrow> URL_Path (Req_URL rq) \<noteq> [] \<Longrightarrow>
     \<exists>d. fst (dispatch v x h e rq w) = w @ LookupCall (Req_Method rq) (URL_Path (Req_URL rq)) # d"
proof -
  assume a: "methodRegister (allowedMethods_s e) (Req_Method rq)" "URL_Path (Req_URL rq) \<noteq> []"
  obtain hv ps rd where lk: "Lookup x (eng_r e) (Req_Method rq) (URL_Path (Req_URL rq)) = (hv, ps, rd)"
    by (metis prod_cases3)
  show ?thesis
  proof (cases hv)
    case None
    with a lk show ?thesis by (auto simp: dispatch_def toggle_slash_def)
  next
    case (Some v')
    let ?c = "\<lparr>req = rq, pathParam = ps, middlewares = elems h (rv_middlewares v'), curMW = 0,
               matchPath = rv_matchPath v'\<rparr>"
    let ?w = "w @ [LookupCall (Req_Method rq) (URL_Path (Req_URL rq))] @
                (if traceMatch v then [TraceMatch (rv_matchPath v') ps] else [])"
    obtain c' w' out where nx: "reqContext_Next ?c ?w = ((c', w'), out)" by (metis surj_pair)
    have "within ?c ?w (fst (reqContext_Next ?c ?w))" by (rule Next_run_within(1)) simp
    with nx obtain d where "w' = ?w @ d" unfolding within_def by auto
    then have "\<exists>d. w' = w @ LookupCall (Req_Method rq) (URL_Path (Req_URL rq)) # d" by simp
    moreover have "fst (dispatch v x h e rq w) = fst (recover_panic (w', out))"
      using a lk Some nx by (simp add: dispatch_def)
    ultimately show ?thesis
      by (cases out) (auto simp: recover_panic_def)
  qed
qed

lemma server_dispatch_lookup_first:
  assumes "methodRegister (srv_allowedMethods_s e) (Req_Method rq)" and "URL_Path (Req_URL rq) \<noteq> []"
    and "server_dispatch n x e rq w = Some r"
  shows "\<exists>d. fst r = w @ LookupCall (Req_Method rq) (URL_Path (Req_URL rq)) # d"
proof -
  obtain hv ps tsr where lk: "Lookup x (srv_r e) (Req_Method rq) (URL_Path (Req_URL rq)) = (hv, ps, tsr)"
    by (metis prod_cases3)
  show ?thesis
  proof (cases "\<exists>hdl. hv = Some (Some hdl)")
    case True
    then obtain hdl where hv: "hv = Some (Some hdl)" by blast
    let ?c = "\<lparr>ec_req = rq, ec_pathParam = ps, ec_engine = e, ec_handler = hdl, ec_curMW = srv_middlewares e\<rparr>"
    let ?w = "w @ [LookupCall (Req_Method rq) (URL_Path (Req_URL rq))]"
    from assms lk hv obtain c' w' out where nx: "engineContext_Next n ?c ?w = Some ((c', w'), out)"
      and r: "r = recover_panic (w', out)"
      by (auto simp del: engineContext_Next.simps simp: server_dispatch_def split: option.splits)
    from srv_no_critical(1)[OF nx] obtain d where "w' = ?w @ d" by blast
    then have "\<exists>d. w' = w @ LookupCall (Req_Method rq) (URL_Path (Req_URL rq)) # d" by simp
    with r show ?thesis by (cases out) (auto simp: recover_panic_def)
  next
    case False
    with assms lk show ?thesis
      by (auto simp del: engineContext_Next.simps simp: server_dispatch_def toggle_slash_def
          split: option.splits if_splits)
  qed
qed

text \<open>
  C8. A request that passes the method gate with an empty path is answered by a
  permanent redirect (308) to the URL with the path rewritten to the root path of the
  revision (\<^verbatim>\<open>/index\<close> or \<^verbatim>\<open>/\<close>), without a lookup. The root path is not empty: the
  same request with the rewritten path goes on to the lookup, not into the empty-path
  branch again.
\<close>

theorem empty_path_redirect:
  "(Req_Method rq \<in> set (allowedMethods_s e) \<and> URL_Path (Req_URL rq) = [] \<and>
    (v = revision_index \<or> v = revision_root) \<longrightarrow>
      ServeHTTP v x h e logId rq =
        ([TraceReq rq, HttpRedirect ((Req_URL rq)\<lparr>URL_Path := rootPath v\<rparr>) 308,
          Resp (SetHeader (LogIdContextKey x) logId), TraceResp], Returns ()) \<and>
      (rootPath v = ''/index'' \<or> rootPath v = ''/'') \<and> rootPath v \<noteq> [] \<and>
      (\<exists>d. fst (ServeHTTP v x h e logId' (set_path rq (rootPath v))) =
              TraceReq (set_path rq (rootPath v)) # LookupCall (Req_Method rq) (rootPath v) # d)) \<and>
   (Req_Method rq \<in> set (srv_allowedMethods_s e0) \<and> URL_Path (Req_URL rq) = [] \<longrightarrow>
      server_ServeHTTP n x0 e0 logId rq =
        Some ([TraceReq rq, HttpRedirect ((Req_URL rq)\<lparr>URL_Path := ''/index''\<rparr>) 308,
               Resp (SetHeader (LogIdContextKey x0) logId), TraceResp], Returns ()) \<and>
      (\<forall>r. server_ServeHTTP n x0 e0 logId' (set_path rq ''/index'') = Some r \<longrightarrow>
         (\<exists>d. fst r = TraceReq (set_path rq ''/index'') # LookupCall (Req_Method rq) ''/index'' # d)))"
proof (intro conjI impI)
  assume a: "Req_Method rq \<in> set (allowedMethods_s e) \<and> URL_Path (Req_URL rq) = [] \<and>
    (v = revision_index \<or> v = revision_root)"
  then have ne: "rootPath v \<noteq> []" by (auto simp: revision_index_def revision_root_def)
  from a show "ServeHTTP v x h e logId rq =
        ([TraceReq rq, HttpRedirect ((Req_URL rq)\<lparr>URL_Path := rootPath v\<rparr>) 308,
          Resp (SetHeader (LogIdContextKey x) logId), TraceResp], Returns ())"
    by (simp add: ServeHTTP_def dispatch_def methodRegister_iff set_path_def)
  from a show "rootPath v = ''/index'' \<or> rootPath v = ''/''"
    by (auto simp: revision_index_def revision_root_def)
  from ne show "rootPath v \<noteq> []" .
  let ?rq = "set_path rq (rootPath v)"
  have m: "methodRegister (allowedMethods_s e) (Req_Method ?rq)" "URL_Path (Req_URL ?rq) \<noteq> []"
    using a ne by (simp_all add: methodRegister_iff set_path_def)
  from dispatch_lookup_first[OF m, of v x h "[TraceReq ?rq]"]
  obtain d where d: "fst (dispatch v x h e ?rq [TraceReq ?rq]) =
      [TraceReq ?rq] @ LookupCall (Req_Method ?rq) (URL_Path (Req_URL ?rq)) # d" by blast
  have "fst (ServeHTTP v x h e logId' ?rq) =
      TraceReq ?rq # LookupCall (Req_Method rq) (rootPath v) #
        (d @ [Resp (SetHeader (LogIdContextKey x) logId'), TraceResp])"
    using d by (cases "dispatch v x h e ?rq [TraceReq ?rq]") (simp add: ServeHTTP_def set_path_def)
  then show "\<exists>d. fst (ServeHTTP v x h e logId' ?rq) =
              TraceReq ?rq # LookupCall (Req_Method rq) (rootPath v) # d" by blast
next
  assume a: "Req_Method rq \<in> set (srv_allowedMethods_s e0) \<and> URL_Path (Req_URL rq) = []"
  then show "server_ServeHTTP n x0 e0 logId rq =
        Some ([TraceReq rq, HttpRedirect ((Req_URL rq)\<lparr>URL_Path := ''/index''\<rparr>) 308,
               Resp (SetHeader (LogIdContextKey x0) logId), TraceResp], Returns ())"
    by (simp add: server_ServeHTTP_def server_dispatch_def methodRegister_iff set_path_def)
  let ?rq = "set_path rq ''/index''"
  have m: "methodRegister (srv_allowedMethods_s e0) (Req_Method ?rq)" "URL_Path (Req_URL ?rq) \<noteq> []"
    using a by (simp_all add: methodRegister_iff set_path_def)
  show "\<forall>r. server_ServeHTTP n x0 e0 logId' ?rq = Some r \<longrightarrow>
         (\<exists>d. fst r = TraceReq ?rq # LookupCall (Req_Method rq) ''/index'' # d)"
  proof (intro allI impI)
    fix r assume r: "server_ServeHTTP n x0 e0 logId' ?rq = Some r"
    then obtain r' where r': "server_dispatch n x0 e0 ?rq [TraceReq ?rq] = Some r'"
      and rr: "fst r = fst r' @ [Resp (SetHeader (LogIdContextKey x0) logId'), TraceResp]"
      by (auto simp: server_ServeHTTP_def split: option.splits)
    from server_dispatch_lookup_first[OF m r']
    obtain d where "fst r' = [TraceReq ?rq] @ LookupCall (Req_Method ?rq) (URL_Path (Req_URL ?rq)) # d"
      by blast
    with rr have "fst r = TraceReq ?rq # LookupCall (Req_Method rq) ''/index'' #
        (d @ [Resp (SetHeader (LogIdContextKey x0) logId'), TraceResp])"
      by (simp add: set_path_def)
    then show "\<exists>d. fst r = TraceReq ?rq # LookupCall (Req_Method rq) ''/index'' # d" by blast
  qed
qed

theorem empty_path_redirect_witness:
  "''GET'' \<in> set (allowedMethods_s demo_engine) \<and> URL_Path (Req_URL (req_of ''GET'' [])) = [] \<and>
   ServeHTTP revision_root demo_ext demo_heap demo_engine ''id1'' (req_of ''GET'' []) =
     ([TraceReq (req_of ''GET'' []), HttpRedirect (Req_URL (req_of ''GET'' ''/'')) 308,
       Resp (SetHeader ''K_LOGID'' ''id1''), TraceResp], Returns ()) \<and>
   ServeHTTP revision_root demo_ext demo_heap demo_engine ''id2'' (req_of ''GET'' ''/'') =
     ([TraceReq (req_of ''GET'' ''/''), LookupCall ''GET'' ''/'', HttpNotFound,
       Resp (SetHeader ''K_LOGID'' ''id2''), TraceResp], Returns ()) \<and>
   ''GET'' \<in> set (srv_allowedMethods_s demo_srv) \<and>
   server_ServeHTTP 0 demo_ext demo_srv ''id1'' (req_of ''GET'' []) =
     Some ([TraceReq (req_of ''GET'' []), HttpRedirect (Req_URL (req_of ''GET'' ''/index'')) 308,
       Resp (SetHeader ''K_LOGID'' ''id1''), TraceResp], Returns ()) \<and>
   server_ServeHTTP 0 demo_ext demo_srv ''id2'' (req_of ''GET'' ''/index'') =
     Some ([TraceReq (req_of ''GET'' ''/index''), LookupCall ''GET'' ''/index'', HttpNotFound,
       Resp (SetHeader ''K_LOGID'' ''id2''), TraceResp], Returns ())"
  using empty_path_redirect[of "req_of ''GET'' []" demo_engine revision_root demo_ext demo_heap "''id1''" "''id2''"
      demo_srv 0 demo_ext]
  by (simp add: ServeHTTP_def dispatch_def server_ServeHTTP_def server_dispatch_def
        demo_engine_def demo_srv_def req_of_def demo_ext_def demo_lookup_def toggle_slash_def
        revision_root_def set_path_def)


text \<open>
  C4. No panic leaves \<^verbatim>\<open>ServeHTTP\<close>. When the chain of the matched route ends in a
  panic, the panic is logged once with \<^verbatim>\<open>logs.CtxCritical\<close> behind what the chain
  has done until then, the deferred header func runs and \<^verbatim>\<open>ServeHTTP\<close> returns.
  \<^verbatim>\<open>ServeHTTP\<close> has the engine as it is and assigns to none of its fields: the request
  served next is served from the same heap and engine.
\<close>

theorem panic_contained:
  "snd (ServeHTTP v x h e logId rq) = Returns () \<and>
   (Req_Method rq \<in> set (allowedMethods_s e) \<and> URL_Path (Req_URL rq) \<noteq> [] \<and>
    Lookup x (eng_r e) (Req_Method rq) (URL_Path (Req_URL rq)) = (Some hv, ps, rd) \<and>
    reqContext_Next
      \<lparr>req = rq, pathParam = ps, middlewares = elems h (rv_middlewares hv), curMW = 0,
       matchPath = rv_matchPath hv\<rparr>
      ([TraceReq rq, LookupCall (Req_Method rq) (URL_Path (Req_URL rq))] @
         (if traceMatch v then [TraceMatch (rv_matchPath hv) ps] else [])) = ((c, w'), Panics f) \<longrightarrow>
      ServeHTTP v x h e logId rq =
        (w' @ [Critical f, Resp (SetHeader (LogIdContextKey x) logId), TraceResp], Returns ()) \<and>
      length (filter is_critical (fst (ServeHTTP v x h e logId rq))) = 1 \<and>
      serve_all v x h e [(logId, rq), (logId', rq')] =
        [ServeHTTP v x h e logId rq, ServeHTTP v x h e logId' rq']) \<and>
   (\<forall>r. server_ServeHTTP n x0 e0 logId rq = Some r \<longrightarrow> snd r = Returns ()) \<and>
   (Req_Method rq \<in> set (srv_allowedMethods_s e0) \<and> URL_Path (Req_URL rq) \<noteq> [] \<and>
    Lookup x0 (srv_r e0) (Req_Method rq) (URL_Path (Req_URL rq)) = (Some (Some hdl), ps0, tsr) \<and>
    engineContext_Next n
      \<lparr>ec_req = rq, ec_pathParam = ps0, ec_engine = e0, ec_handler = hdl, ec_curMW = srv_middlewares e0\<rparr>
      [TraceReq rq, LookupCall (Req_Method rq) (URL_Path (Req_URL rq))] = Some ((c0, w0), Panics f0) \<longrightarrow>
      server_ServeHTTP n x0 e0 logId rq =
        Some (w0 @ [Critical f0, Resp (SetHeader (LogIdContextKey x0) logId), TraceResp], Returns ()) \<and>
      length (filter is_critical (w0 @ [Critical f0, Resp (SetHeader (LogIdContextKey x0) logId), TraceResp])) = 1)"
proof (intro conjI impI allI)
  show "snd (ServeHTTP v x h e logId rq) = Returns ()"
    using dispatch_returns[of v x h e rq "[TraceReq rq]"]
    by (cases "dispatch v x h e rq [TraceReq rq]") (simp add: ServeHTTP_def)
next
  let ?c = "\<lparr>req = rq, pathParam = ps, middlewares = elems h (rv_middlewares hv), curMW = 0,
       matchPath = rv_matchPath hv\<rparr>"
  let ?w = "[TraceReq rq, LookupCall (Req_Method rq) (URL_Path (Req_URL rq))] @
         (if traceMatch v then [TraceMatch (rv_matchPath hv) ps] else [])"
  assume a: "Req_Method rq \<in> set (allowedMethods_s e) \<and> URL_Path (Req_URL rq) \<noteq> [] \<and>
    Lookup x (eng_r e) (Req_Method rq) (URL_Path (Req_URL rq)) = (Some hv, ps, rd) \<and>
    reqContext_Next ?c ?w = ((c, w'), Panics f)"
  then have nx: "reqContext_Next ?c ?w = ((c, w'), Panics f)" by blast
  from a show s: "ServeHTTP v x h e logId rq =
        (w' @ [Critical f, Resp (SetHeader (LogIdContextKey x) logId), TraceResp], Returns ())"
    by (simp add: ServeHTTP_def dispatch_def methodRegister_iff recover_panic_def)
  have "curMW ?c \<le> length (middlewares ?c)" by simp
  from Next_no_critical[OF this nx] obtain d where "w' = ?w @ d" "filter is_critical d = []" by blast
  then have "filter is_critical w' = []" by simp
  with s show "length (filter is_critical (fst (ServeHTTP v x h e logId rq))) = 1" by simp
  show "serve_all v x h e [(logId, rq), (logId', rq')] =
        [ServeHTTP v x h e logId rq, ServeHTTP v x h e logId' rq']"
    by (simp add: serve_all_def)
next
  fix r assume "server_ServeHTTP n x0 e0 logId rq = Some r"
  then show "snd r = Returns ()"
    by (auto simp: server_ServeHTTP_def split: option.splits dest: server_dispatch_returns)
next
  let ?c = "\<lparr>ec_req = rq, ec_pathParam = ps0, ec_engine = e0, ec_handler = hdl, ec_curMW = srv_middlewares e0\<rparr>"
  let ?w = "[TraceReq rq, LookupCall (Req_Method rq) (URL_Path (Req_URL rq))]"
  assume a: "Req_Method rq \<in> set (srv_allowedMethods_s e0) \<and> URL_Path (Req_URL rq) \<noteq> [] \<and>
    Lookup x0 (srv_r e0) (Req_Method rq) (URL_Path (Req_URL rq)) = (Some (Some hdl), ps0, tsr) \<and>
    engineContext_Next n ?c ?w = Some ((c0, w0), Panics f0)"
  then have nx: "engineContext_Next n ?c ?w = Some ((c0, w0), Panics f0)" by blast
  from a show "server_ServeHTTP n x0 e0 logId rq =
        Some (w0 @ [Critical f0, Resp (SetHeader (LogIdContextKey x0) logId), TraceResp], Returns ())"
    by (simp del: engineContext_Next.simps
        add: server_ServeHTTP_def server_dispatch_def methodRegister_iff recover_panic_def)
  from srv_no_critical(1)[OF nx] obtain d where "w0 = ?w @ d" "filter is_critical d = []" by blast
  then have "filter is_critical w0 = []" by simp
  then show "length (filter is_critical (w0 @ [Critical f0, Resp (SetHeader (LogIdContextKey x0) logId), TraceResp])) = 1"
    by simp
qed

theorem panic_contained_witness:
  "''GET'' \<in> set (allowedMethods_s demo_engine) \<and> URL_Path (Req_URL (req_of ''GET'' ''/boom'')) \<noteq> [] \<and>
   Lookup demo_ext (eng_r demo_engine) ''GET'' ''/boom'' =
     (Some \<lparr>rv_middlewares = \<lparr>arr = 1, off = 0, len = 2, cap = 2\<rparr>, rv_matchPath = ''/boom''\<rparr>, [], False) \<and>
   reqContext_Next
     \<lparr>req = req_of ''GET'' ''/boom'', pathParam = [],
      middlewares = elems demo_heap \<lparr>arr = 1, off = 0, len = 2, cap = 2\<rparr>, curMW = 0, matchPath = ''/boom''\<rparr>
     [TraceReq (req_of ''GET'' ''/boom''), LookupCall ''GET'' ''/boom'', TraceMatch ''/boom'' []] =
     ((\<lparr>req = req_of ''GET'' ''/boom'', pathParam = [], middlewares = demo_faulty_units, curMW = 2,
        matchPath = ''/boom''\<rparr>,
       [TraceReq (req_of ''GET'' ''/boom''), LookupCall ''GET'' ''/boom'', TraceMatch ''/boom'' [], Invoke 0,
        Resp (Write ''a''), Invoke 1, Resp (WriteHeader 500)]), Panics (PanicValue ''boom'')) \<and>
   Lookup demo_ext (srv_r demo_srv) ''GET'' ''/boom'' = (Some (Some demo_faulty_handler), [], False) \<and>
   engineContext_Next (Suc 0)
     \<lparr>ec_req = req_of ''GET'' ''/boom'', ec_pathParam = [], ec_engine = demo_srv,
      ec_handler = demo_faulty_handler, ec_curMW = srv_middlewares demo_srv\<rparr>
     [TraceReq (req_of ''GET'' ''/boom''), LookupCall ''GET'' ''/boom''] =
     Some ((\<lparr>ec_req = req_of ''GET'' ''/boom'', ec_pathParam = [], ec_engine = demo_srv,
             ec_handler = demo_faulty_handler, ec_curMW = []\<rparr>,
            [TraceReq (req_of ''GET'' ''/boom''), LookupCall ''GET'' ''/boom'', InvokeHandler,
             Resp (WriteHeader 500)]), Panics (PanicValue ''boom'')) \<and>
   ServeHTTP revision_root demo_ext demo_heap demo_engine ''id1'' (req_of ''GET'' ''/boom'') =
     ([TraceReq (req_of ''GET'' ''/boom''), LookupCall ''GET'' ''/boom'', TraceMatch ''/boom'' [], Invoke 0,
       Resp (Write ''a''), Invoke 1, Resp (WriteHeader 500), Critical (PanicValue ''boom''),
       Resp (SetHeader ''K_LOGID'' ''id1''), TraceResp], Returns ()) \<and>
   serve_all revision_root demo_ext demo_heap demo_engine
       [(''id1'', req_of ''GET'' ''/boom''), (''id2'', req_of ''GET'' ''/zzz'')] =
     [ServeHTTP revision_root demo_ext demo_heap demo_engine ''id1'' (req_of ''GET'' ''/boom''),
      ([TraceReq (req_of ''GET'' ''/zzz''), LookupCall ''GET'' ''/zzz'', HttpNotFound,
        Resp (SetHeader ''K_LOGID'' ''id2''), TraceResp], Returns ())] \<and>
   ''GET'' \<in> set (srv_allowedMethods_s demo_srv) \<and>
   server_ServeHTTP (Suc 0) demo_ext demo_srv ''id1'' (req_of ''GET'' ''/boom'') =
     Some ([TraceReq (req_of ''GET'' ''/boom''), LookupCall ''GET'' ''/boom'', InvokeHandler,
            Resp (WriteHeader 500), Critical (PanicValue ''boom''),
            Resp (SetHeader ''K_LOGID'' ''id1''), TraceResp], Returns ())"
  using panic_contained[of revision_root demo_ext demo_heap demo_engine "''id1''" "req_of ''GET'' ''/boom''"
      "\<lparr>rv_middlewares = \<lparr>arr = 1, off = 0, len = 2, cap = 2\<rparr>, rv_matchPath = ''/boom''\<rparr>" "[]" False
      "\<lparr>req = req_of ''GET'' ''/boom'', pathParam = [], middlewares = demo_faulty_units, curMW = 2, matchPath = ''/boom''\<rparr>"
      "[TraceReq (req_of ''GET'' ''/boom''), LookupCall ''GET'' ''/boom'', TraceMatch ''/boom'' [], Invoke 0,
       Resp (Write ''a''), Invoke 1, Resp (WriteHeader 500)]" "PanicValue ''boom''"
      "''id2''" "req_of ''GET'' ''/zzz''" "Suc 0" demo_ext demo_srv demo_faulty_handler "[]" False
      "\<lparr>ec_req = req_of ''GET'' ''/boom'', ec_pathParam = [], ec_engine = demo_srv,
        ec_handler = demo_faulty_handler, ec_curMW = []\<rparr>"
      "[TraceReq (req_of ''GET'' ''/boom''), LookupCall ''GET'' ''/boom'', InvokeHandler, Resp (WriteHeader 500)]"
      "PanicValue ''boom''"]
  by (simp add: ServeHTTP_def dispatch_def server_ServeHTTP_def server_dispatch_def serve_all_def
        demo_engine_def demo_srv_def req_of_def demo_ext_def demo_lookup_def demo_heap_def
        demo_faulty_units_def demo_faulty_handler_def demo_handler_def revision_root_def elems_def
        recover_panic_def toggle_slash_def index_def call_unit_def view_def)


lemma toggle_round_trip:
  assumes "p \<noteq> []"
  shows "(\<exists>q. toggle_slash p = Returns q \<and> toggle_slash q = Returns p) \<longleftrightarrow>
         (p \<noteq> ''/'' \<and> (\<forall>r. p \<noteq> r @ ''//''))"
proof (cases "last p = CHR ''/''")
  case False
  then have 1: "toggle_slash p = Returns (p @ ''/'')" using assms by (simp add: toggle_slash_def)
  have 2: "toggle_slash (p @ ''/'') = Returns p" by (simp add: toggle_slash_def)
  have "p \<noteq> ''/''" using False by auto
  moreover have "\<forall>r. p \<noteq> r @ ''//''" using False by auto
  ultimately show ?thesis using 1 2 by simp
next
  case True
  then have 1: "toggle_slash p = Returns (butlast p)" using assms by (simp add: toggle_slash_def)
  have p: "p = butlast p @ ''/''" using True assms by (metis append_butlast_last_id)
  show ?thesis
  proof (cases "butlast p = []")
    case True
    then have "p = ''/''" using p by simp
    moreover have "toggle_slash (butlast p) \<noteq> Returns p" using True by (simp add: toggle_slash_def)
    ultimately show ?thesis using 1 by simp
  next
    case ne: False
    show ?thesis
    proof (cases "last (butlast p) = CHR ''/''")
      case True
      then have "butlast p = butlast (butlast p) @ ''/''" using ne by (metis append_butlast_last_id)
      then obtain r where r: "butlast p = r @ ''/''" by blast
      from p obtain t where t: "p = t @ ''/''" "t = butlast p" by blast
      from t r have "p = r @ ''//''" by simp
      then have "\<not> (\<forall>r. p \<noteq> r @ ''//'')" by blast
      moreover have "toggle_slash (butlast p) = Returns (butlast (butlast p))"
        using True ne by (simp add: toggle_slash_def)
      moreover have "butlast (butlast p) \<noteq> p"
      proof
        assume eq: "butlast (butlast p) = p"
        have "length (butlast (butlast p)) < length p" using assms by (cases p) auto
        with eq show False by simp
      qed
      ultimately show ?thesis using 1 by simp
    next
      case False
      then have "toggle_slash (butlast p) = Returns (butlast p @ ''/'')"
        using ne by (simp add: toggle_slash_def)
      with p have 2: "toggle_slash (butlast p) = Returns p" by simp
      have "p \<noteq> ''/''" using ne by auto
      moreover have "\<forall>r. p \<noteq> r @ ''//''"
      proof (intro allI notI)
        fix r assume "p = r @ ''//''"
        then have "butlast p = r @ ''/''" by (simp add: butlast_append)
        with False show False by simp
      qed
      ultimately show ?thesis using 1 2 by simp
    qed
  qed
qed


text \<open>
  C5 (amended). Toggling the final slash of a non-empty path twice gives the path back
  exactly when the path is not \<^verbatim>\<open>/\<close> and does not end in two slashes. For a request
  that passes the method gate with a non-empty path, for which the lookup finds nothing
  and signals a redirect, \<^verbatim>\<open>ServeHTTP\<close> toggles the final slash of the path of the
  request's URL and calls \<^verbatim>\<open>http.Redirect\<close> with that URL and the status 308. Which
  \<^verbatim>\<open>Location\<close> \<^verbatim>\<open>net/http\<close> makes of the URL is not stated.
\<close>

theorem trailing_slash_redirect:
  "(p \<noteq> [] \<longrightarrow>
      ((\<exists>q. toggle_slash p = Returns q \<and> toggle_slash q = Returns p) \<longleftrightarrow>
       (p \<noteq> ''/'' \<and> (\<forall>r. p \<noteq> r @ ''//'')))) \<and>
   (Req_Method rq \<in> set (allowedMethods_s e) \<and> URL_Path (Req_URL rq) \<noteq> [] \<and>
    Lookup x (eng_r e) (Req_Method rq) (URL_Path (Req_URL rq)) = (None, ps, True) \<longrightarrow>
      (\<exists>q. toggle_slash (URL_Path (Req_URL rq)) = Returns q \<and>
           q = (if last (URL_Path (Req_URL rq)) = CHR ''/'' then butlast (URL_Path (Req_URL rq))
                else URL_Path (Req_URL rq) @ ''/'') \<and>
           ServeHTTP v x h e logId rq =
             ([TraceReq rq, LookupCall (Req_Method rq) (URL_Path (Req_URL rq)),
               HttpRedirect ((Req_URL rq)\<lparr>URL_Path := q\<rparr>) 308,
               Resp (SetHeader (LogIdContextKey x) logId), TraceResp], Returns ()))) \<and>
   (Req_Method rq \<in> set (srv_allowedMethods_s e0) \<and> URL_Path (Req_URL rq) \<noteq> [] \<and>
    Lookup x0 (srv_r e0) (Req_Method rq) (URL_Path (Req_URL rq)) = (None, ps0, True) \<longrightarrow>
      (\<exists>q. toggle_slash (URL_Path (Req_URL rq)) = Returns q \<and>
           server_ServeHTTP n x0 e0 logId rq =
             Some ([TraceReq rq, LookupCall (Req_Method rq) (URL_Path (Req_URL rq)),
                    HttpRedirect ((Req_URL rq)\<lparr>URL_Path := q\<rparr>) 308,
                    Resp (SetHeader (LogIdContextKey x0) logId), TraceResp], Returns ())))"
proof (intro conjI impI)
  assume "p \<noteq> []"
  then show "(\<exists>q. toggle_slash p = Returns q \<and> toggle_slash q = Returns p) \<longleftrightarrow>
       (p \<noteq> ''/'' \<and> (\<forall>r. p \<noteq> r @ ''//''))"
    by (rule toggle_round_trip)
next
  assume "Req_Method rq \<in> set (allowedMethods_s e) \<and> URL_Path (Req_URL rq) \<noteq> [] \<and>
    Lookup x (eng_r e) (Req_Method rq) (URL_Path (Req_URL rq)) = (None, ps, True)"
  then show "\<exists>q. toggle_slash (URL_Path (Req_URL rq)) = Returns q \<and>
           q = (if last (URL_Path (Req_URL rq)) = CHR ''/'' then butlast (URL_Path (Req_URL rq))
                else URL_Path (Req_URL rq) @ ''/'') \<and>
           ServeHTTP v x h e logId rq =
             ([TraceReq rq, LookupCall (Req_Method rq) (URL_Path (Req_URL rq)),
               HttpRedirect ((Req_URL rq)\<lparr>URL_Path := q\<rparr>) 308,
               Resp (SetHeader (LogIdContextKey x) logId), TraceResp], Returns ())"
    by (simp add: ServeHTTP_def dispatch_def methodRegister_iff toggle_slash_def set_path_def)
next
  assume "Req_Method rq \<in> set (srv_allowedMethods_s e0) \<and> URL_Path (Req_URL rq) \<noteq> [] \<and>
    Lookup x0 (srv_r e0) (Req_Method rq) (URL_Path (Req_URL rq)) = (None, ps0, True)"
  then show "\<exists>q. toggle_slash (URL_Path (Req_URL rq)) = Returns q \<and>
           server_ServeHTTP n x0 e0 logId rq =
             Some ([TraceReq rq, LookupCall (Req_Method rq) (URL_Path (Req_URL rq)),
                    HttpRedirect ((Req_URL rq)\<lparr>URL_Path := q\<rparr>) 308,
                    Resp (SetHeader (LogIdContextKey x0) logId), TraceResp], Returns ())"
    by (simp add: server_ServeHTTP_def server_dispatch_def methodRegister_iff toggle_slash_def set_path_def)
qed

theorem trailing_slash_redirect_witness:
  "''/a/'' \<noteq> [] \<and> toggle_slash ''/a/'' = Returns ''/a'' \<and> toggle_slash ''/a'' = Returns ''/a/'' \<and>
   ''GET'' \<in> set (allowedMethods_s demo_engine) \<and>
   Lookup demo_ext (eng_r demo_engine) ''GET'' ''/a/'' = (None, [], True) \<and>
   ServeHTTP revision_root demo_ext demo_heap demo_engine ''id1'' (req_of ''GET'' ''/a/'') =
     ([TraceReq (req_of ''GET'' ''/a/''), LookupCall ''GET'' ''/a/'',
       HttpRedirect (Req_URL (req_of ''GET'' ''/a'')) 308,
       Resp (SetHeader ''K_LOGID'' ''id1''), TraceResp], Returns ()) \<and>
   ''GET'' \<in> set (srv_allowedMethods_s demo_srv) \<and>
   Lookup demo_ext (srv_r demo_srv) ''GET'' ''/a/'' = (None, [], True) \<and>
   server_ServeHTTP 0 demo_ext demo_srv ''id1'' (req_of ''GET'' ''/a/'') =
     Some ([TraceReq (req_of ''GET'' ''/a/''), LookupCall ''GET'' ''/a/'',
       HttpRedirect (Req_URL (req_of ''GET'' ''/a'')) 308,
       Resp (SetHeader ''K_LOGID'' ''id1''), TraceResp], Returns ())"
  using trailing_slash_redirect[of "''/a/''" "req_of ''GET'' ''/a/''" demo_engine demo_ext "[]"
      revision_root demo_heap "''id1''" demo_srv demo_ext "[]" 0]
  by (simp add: ServeHTTP_def dispatch_def server_ServeHTTP_def server_dispatch_def
        demo_engine_def demo_srv_def req_of_def demo_ext_def demo_lookup_def toggle_slash_def
        revision_root_def set_path_def)

text \<open>
  C5 as stated fails on a path that ends in two slashes: each toggle strips one.
\<close>

theorem toggle_twice_counterexample:
  "toggle_slash ''/a//'' = Returns ''/a/'' \<and> toggle_slash ''/a/'' = Returns ''/a'' \<and>
   ''/a'' \<noteq> ''/a//'' \<and>
   Lookup demo_ext [(''GET'', ''/a/'', ())] ''GET'' ''/a//'' = (None, [], True)"
  by (simp add: toggle_slash_def demo_ext_def demo_lookup_def)

text \<open>
  For the path \<^verbatim>\<open>/\<close> the toggled path is empty: the URL handed to
  \<^verbatim>\<open>http.Redirect\<close> has no path, only its query.
\<close>

lemma toggle_root_gives_empty_path:
  "Lookup demo_ext [(''GET'', [], hv)] ''GET'' ''/'' = (None, [], True) \<and>
   ServeHTTP revision_root demo_ext h
       \<lparr>eng_r = [(''GET'', [], hv)], allowedMethods_s = [''GET''], allowedMethods_str = ''GET''\<rparr>
       ''id1'' (req_of ''GET'' ''/'') =
     ([TraceReq (req_of ''GET'' ''/''), LookupCall ''GET'' ''/'',
       HttpRedirect \<lparr>URL_Path = [], URL_RawQuery = ''q=1''\<rparr> 308,
       Resp (SetHeader ''K_LOGID'' ''id1''), TraceResp], Returns ())"
  by (simp add: ServeHTTP_def dispatch_def req_of_def demo_ext_def demo_lookup_def toggle_slash_def
      set_path_def)


section \<open>Registration\<close>

lemma allowed_ok_step:
  assumes "allowed_ok s str" and "m \<notin> set s"
  shows "allowed_ok (sort (s @ [m])) (Join (sort (s @ [m])) '','')"
  using assms unfolding allowed_ok_def by simp

lemma Register_cases:
  assumes "Register grow (h, e) node = ((h', e'), out)"
  shows "(out \<noteq> Returns () \<and> e' = e) \<or>
         (out = Returns () \<and> Method node \<in> set (allowedMethods_s e) \<and>
            allowedMethods_s e' = allowedMethods_s e \<and> allowedMethods_str e' = allowedMethods_str e) \<or>
         (out = Returns () \<and> Method node \<notin> set (allowedMethods_s e) \<and>
            allowedMethods_s e' = sort (allowedMethods_s e @ [Method node]) \<and>
            allowedMethods_str e' = Join (allowedMethods_s e') '','')"
  using assms
  by (auto simp: Register_def Let_def methodRegister_iff split: prod.splits if_splits)

lemma Register_allowed_ok:
  assumes "Register grow (h, e) node = ((h', e'), out)"
    and "allowed_ok (allowedMethods_s e) (allowedMethods_str e)"
  shows "allowed_ok (allowedMethods_s e') (allowedMethods_str e')"
  using Register_cases[OF assms(1)] assms(2) allowed_ok_step[OF assms(2)]
  by auto

lemma Register_all_allowed_ok:
  "Register_all grow (h, e) nodes = ((h', e'), out) \<Longrightarrow>
   allowed_ok (allowedMethods_s e) (allowedMethods_str e) \<Longrightarrow>
   allowed_ok (allowedMethods_s e') (allowedMethods_str e')"
proof (induction nodes arbitrary: h e)
  case Nil
  then show ?case by simp
next
  case (Cons v vs)
  obtain h1 e1 o1 where r: "Register grow (h, e) v = ((h1, e1), o1)" by (metis surj_pair)
  from Register_allowed_ok[OF r Cons.prems(2)] have ok1: "allowed_ok (allowedMethods_s e1) (allowedMethods_str e1)" .
  show ?case
  proof (cases o1)
    case (Returns u)
    with r Cons.prems(1) have "Register_all grow (h1, e1) vs = ((h', e'), out)" by simp
    from Cons.IH[OF this ok1] show ?thesis .
  next
    case (Panics f)
    with r Cons.prems(1) have "e' = e1" by simp
    with ok1 show ?thesis by simp
  qed
qed

lemma Register_all_methods:
  "Register_all grow (h, e) nodes = ((h', e'), Returns ()) \<Longrightarrow>
   set (allowedMethods_s e') = set (allowedMethods_s e) \<union> Method ` set nodes"
proof (induction nodes arbitrary: h e)
  case Nil
  then show ?case by simp
next
  case (Cons v vs)
  obtain h1 e1 o1 where r: "Register grow (h, e) v = ((h1, e1), o1)" by (metis surj_pair)
  with Cons.prems have o1: "o1 = Returns ()" and ra: "Register_all grow (h1, e1) vs = ((h', e'), Returns ())"
    by (auto split: outcome.splits)
  from Register_cases[OF r] o1 have "set (allowedMethods_s e1) = set (allowedMethods_s e) \<union> {Method v}"
    by auto
  with Cons.IH[OF ra] show ?case by auto
qed

lemma server_Register_cases:
  "(m \<in> set (srv_allowedMethods_s e) \<and>
      srv_allowedMethods_s (server_Register e m p hdl) = srv_allowedMethods_s e \<and>
      srv_allowedMethods_str (server_Register e m p hdl) = srv_allowedMethods_str e) \<or>
   (m \<notin> set (srv_allowedMethods_s e) \<and>
      srv_allowedMethods_s (server_Register e m p hdl) = sort (srv_allowedMethods_s e @ [m]) \<and>
      srv_allowedMethods_str (server_Register e m p hdl) =
        Join (srv_allowedMethods_s (server_Register e m p hdl)) '','')"
  by (auto simp: server_Register_def Let_def methodRegister_iff)

lemma server_Register_allowed_ok:
  assumes "allowed_ok (srv_allowedMethods_s e) (srv_allowedMethods_str e)"
  shows "allowed_ok (srv_allowedMethods_s (server_Register e m p hdl)) (srv_allowedMethods_str (server_Register e m p hdl))"
  using server_Register_cases[of m e p hdl] assms allowed_ok_step[OF assms, of m]
  by auto

lemma server_Register_all_allowed_ok:
  "allowed_ok (srv_allowedMethods_s e) (srv_allowedMethods_str e) \<Longrightarrow>
   allowed_ok (srv_allowedMethods_s (server_Register_all e rs)) (srv_allowedMethods_str (server_Register_all e rs))"
  by (induction e rs rule: server_Register_all.induct) (simp_all add: server_Register_allowed_ok)

lemma server_Register_all_methods:
  "set (srv_allowedMethods_s (server_Register_all e rs)) = set (srv_allowedMethods_s e) \<union> fst ` set rs"
proof (induction e rs rule: server_Register_all.induct)
  case (1 e)
  then show ?case by simp
next
  case (2 e m p hdl rs)
  from server_Register_cases[of m e p hdl]
  have "set (srv_allowedMethods_s (server_Register e m p hdl)) = set (srv_allowedMethods_s e) \<union> {m}"
    by auto
  with 2 show ?case by auto
qed


text \<open>
  C3. After any sequence of calls of \<open>Register\<close> on a new engine (a sequence that a
  panic ends included), the allowed methods are sorted and without duplicates and the
  precomputed string is their join with commas; they are the methods registered when
  no call panicked. One more call of \<open>Register\<close> never removes a method, and leaves
  both the list and the string as they are when its method is already there. In both
  engines.
\<close>

theorem allowed_methods_invariant:
  "(Register_all grow (h, New) nodes = ((h', e'), out) \<longrightarrow>
      sorted (allowedMethods_s e') \<and> distinct (allowedMethods_s e') \<and>
      allowedMethods_str e' = Join (allowedMethods_s e') '','' \<and>
      (out = Returns () \<longrightarrow> set (allowedMethods_s e') = Method ` set nodes) \<and>
      (\<forall>node h2 e2 out2. Register grow (h', e') node = ((h2, e2), out2) \<longrightarrow>
         set (allowedMethods_s e') \<subseteq> set (allowedMethods_s e2) \<and>
         (Method node \<in> set (allowedMethods_s e') \<longrightarrow>
            allowedMethods_s e2 = allowedMethods_s e' \<and>
            allowedMethods_str e2 = allowedMethods_str e'))) \<and>
   (server_Register_all server_New rs = e0 \<longrightarrow>
      sorted (srv_allowedMethods_s e0) \<and> distinct (srv_allowedMethods_s e0) \<and>
      srv_allowedMethods_str e0 = Join (srv_allowedMethods_s e0) '','' \<and>
      set (srv_allowedMethods_s e0) = fst ` set rs \<and>
      (\<forall>m p hdl.
         set (srv_allowedMethods_s e0) \<subseteq> set (srv_allowedMethods_s (server_Register e0 m p hdl)) \<and>
         (m \<in> set (srv_allowedMethods_s e0) \<longrightarrow>
            srv_allowedMethods_s (server_Register e0 m p hdl) = srv_allowedMethods_s e0 \<and>
            srv_allowedMethods_str (server_Register e0 m p hdl) = srv_allowedMethods_str e0)))"
proof (intro conjI impI)
  assume r: "Register_all grow (h, New) nodes = ((h', e'), out)"
  have "allowed_ok (allowedMethods_s New) (allowedMethods_str New)"
    by (simp add: allowed_ok_def New_def)
  from Register_all_allowed_ok[OF r this]
  show "sorted (allowedMethods_s e')" "distinct (allowedMethods_s e')"
    "allowedMethods_str e' = Join (allowedMethods_s e') '',''"
    by (simp_all add: allowed_ok_def)
  show "set (allowedMethods_s e') = Method ` set nodes" if "out = Returns ()"
    using Register_all_methods[of grow h New nodes h' e'] r that by (simp add: New_def)
  show "\<forall>node h2 e2 out2. Register grow (h', e') node = ((h2, e2), out2) \<longrightarrow>
         set (allowedMethods_s e') \<subseteq> set (allowedMethods_s e2) \<and>
         (Method node \<in> set (allowedMethods_s e') \<longrightarrow>
            allowedMethods_s e2 = allowedMethods_s e' \<and>
            allowedMethods_str e2 = allowedMethods_str e')"
  proof (intro allI impI)
    fix node h2 e2 out2
    assume "Register grow (h', e') node = ((h2, e2), out2)"
    from Register_cases[OF this]
    show "set (allowedMethods_s e') \<subseteq> set (allowedMethods_s e2) \<and>
         (Method node \<in> set (allowedMethods_s e') \<longrightarrow>
            allowedMethods_s e2 = allowedMethods_s e' \<and>
            allowedMethods_str e2 = allowedMethods_str e')"
      by auto
  qed
next
  assume r: "server_Register_all server_New rs = e0"
  have ok: "allowed_ok (srv_allowedMethods_s server_New) (srv_allowedMethods_str server_New)"
    by (simp add: allowed_ok_def server_New_def)
  from server_Register_all_allowed_ok[OF ok, of rs] r
  show "sorted (srv_allowedMethods_s e0)" "distinct (srv_allowedMethods_s e0)"
    "srv_allowedMethods_str e0 = Join (srv_allowedMethods_s e0) '',''"
    by (simp_all add: allowed_ok_def)
  show "set (srv_allowedMethods_s e0) = fst ` set rs"
    using server_Register_all_methods[of server_New rs] r by (simp add: server_New_def)
  show "\<forall>m p hdl.
         set (srv_allowedMethods_s e0) \<subseteq> set (srv_allowedMethods_s (server_Register e0 m p hdl)) \<and>
         (m \<in> set (srv_allowedMethods_s e0) \<longrightarrow>
            srv_allowedMethods_s (server_Register e0 m p hdl) = srv_allowedMethods_s e0 \<and>
            srv_allowedMethods_str (server_Register e0 m p hdl) = srv_allowedMethods_str e0)"
  proof (intro allI)
    fix m p hdl
    from server_Register_cases[of m e0 p hdl]
    show "set (srv_allowedMethods_s e0) \<subseteq> set (srv_allowedMethods_s (server_Register e0 m p hdl)) \<and>
         (m \<in> set (srv_allowedMethods_s e0) \<longrightarrow>
            srv_allowedMethods_s (server_Register e0 m p hdl) = srv_allowedMethods_s e0 \<and>
            srv_allowedMethods_str (server_Register e0 m p hdl) = srv_allowedMethods_str e0)"
      by auto
  qed
qed

lemma demo_Register_all:
  "Register_all demo_grow ([], New) demo_nodes =
     (([[Some (\<lambda>_. Return)], [Some (\<lambda>_. Return)], [Some (\<lambda>_. Return)]],
       \<lparr>eng_r = [(''POST'', ''/b'', \<lparr>rv_middlewares = \<lparr>arr = 0, off = 0, len = 1, cap = 1\<rparr>, rv_matchPath = ''/b''\<rparr>),
                 (''GET'', ''/a'', \<lparr>rv_middlewares = \<lparr>arr = 1, off = 0, len = 1, cap = 1\<rparr>, rv_matchPath = ''/a''\<rparr>),
                 (''POST'', ''/c'', \<lparr>rv_middlewares = \<lparr>arr = 2, off = 0, len = 1, cap = 1\<rparr>, rv_matchPath = ''/c''\<rparr>)],
        allowedMethods_s = [''GET'', ''POST''], allowedMethods_str = ''GET,POST''\<rparr>), Returns ())"
  by (simp add: demo_nodes_def New_def Register_def append_slice_def elems_def nil_slice_def demo_grow_def)


theorem allowed_methods_invariant_witness:
  "Register_all demo_grow ([], New) demo_nodes =
     (([[Some (\<lambda>_. Return)], [Some (\<lambda>_. Return)], [Some (\<lambda>_. Return)]],
       \<lparr>eng_r = [(''POST'', ''/b'', \<lparr>rv_middlewares = \<lparr>arr = 0, off = 0, len = 1, cap = 1\<rparr>, rv_matchPath = ''/b''\<rparr>),
                 (''GET'', ''/a'', \<lparr>rv_middlewares = \<lparr>arr = 1, off = 0, len = 1, cap = 1\<rparr>, rv_matchPath = ''/a''\<rparr>),
                 (''POST'', ''/c'', \<lparr>rv_middlewares = \<lparr>arr = 2, off = 0, len = 1, cap = 1\<rparr>, rv_matchPath = ''/c''\<rparr>)],
        allowedMethods_s = [''GET'', ''POST''], allowedMethods_str = ''GET,POST''\<rparr>), Returns ()) \<and>
   sorted [''GET'', ''POST''] \<and> distinct [''GET'', ''POST''] \<and> Join [''GET'', ''POST''] '','' = ''GET,POST'' \<and>
   set [''GET'', ''POST''] = Method ` set demo_nodes \<and>
   server_Register_all server_New demo_regs =
     \<lparr>srv_r = demo_regs, srv_middlewares = [], srv_allowedMethods_s = [''GET'', ''POST''],
      srv_allowedMethods_str = ''GET,POST''\<rparr> \<and>
   set [''GET'', ''POST''] = fst ` set demo_regs"
  using allowed_methods_invariant[of demo_grow "[]" demo_nodes
      "[[Some (\<lambda>_. Return)], [Some (\<lambda>_. Return)], [Some (\<lambda>_. Return)]]"
      "\<lparr>eng_r = [(''POST'', ''/b'', \<lparr>rv_middlewares = \<lparr>arr = 0, off = 0, len = 1, cap = 1\<rparr>, rv_matchPath = ''/b''\<rparr>),
                 (''GET'', ''/a'', \<lparr>rv_middlewares = \<lparr>arr = 1, off = 0, len = 1, cap = 1\<rparr>, rv_matchPath = ''/a''\<rparr>),
                 (''POST'', ''/c'', \<lparr>rv_middlewares = \<lparr>arr = 2, off = 0, len = 1, cap = 1\<rparr>, rv_matchPath = ''/c''\<rparr>)],
        allowedMethods_s = [''GET'', ''POST''], allowedMethods_str = ''GET,POST''\<rparr>"
      "Returns ()" demo_regs
      "\<lparr>srv_r = demo_regs, srv_middlewares = [], srv_allowedMethods_s = [''GET'', ''POST''],
      srv_allowedMethods_str = ''GET,POST''\<rparr>"]
  by (simp add: demo_Register_all)
     (auto simp: demo_nodes_def demo_regs_def server_New_def server_Register_def)

subsection \<open>Shared arrays\<close>

text \<open>
  On a slice that Go can hold, \<^verbatim>\<open>append\<close> returns a slice that reads as the old
  elements followed by the new ones.
\<close>

lemma elems_length: "wf_slice h s \<Longrightarrow> length (elems h s) = len s"
  by (auto simp: wf_slice_def elems_def)

lemma append_slice_elems:
  assumes "wf_slice h s" and "append_slice grow h s xs = (h1, s1)"
  shows "elems h1 s1 = elems h s @ xs"
proof (cases "len s + length xs \<le> cap s")
  case False
  with assms(2) have h1: "h1 = h @ [elems h s @ xs @ replicate (max (len s + length xs) (grow (cap s) (len s + length xs)) - (len s + length xs)) None]"
    and s1: "s1 = \<lparr>arr = length h, off = 0, len = len s + length xs, cap = max (len s + length xs) (grow (cap s) (len s + length xs))\<rparr>"
    by (auto simp: append_slice_def Let_def)
  show ?thesis using elems_length[OF assms(1)] by (simp add: h1 s1 elems_def)
next
  case True
  show ?thesis
  proof (cases "xs = []")
    case True
    with assms(2) \<open>len s + length xs \<le> cap s\<close> show ?thesis by (simp add: append_slice_def elems_def)
  next
    case False
    with True assms(1) have wf: "arr s < length h" "off s + cap s \<le> length (h ! arr s)"
      by (auto simp: wf_slice_def)
    from False True assms(2) have h1: "h1 = h[arr s := write_at (h ! arr s) (off s + len s) xs]"
      and s1: "s1 = s\<lparr>len := len s + length xs\<rparr>"
      by (auto simp: append_slice_def Let_def)
    have bound: "off s + len s + length xs \<le> length (h ! arr s)" using wf True by simp
    have d: "drop (off s) (take (off s + len s) (h ! arr s)) = take (len s) (drop (off s) (h ! arr s))"
      by (simp add: drop_take)
    have l: "length (take (len s) (drop (off s) (h ! arr s))) = len s" using bound by simp
    have "drop (off s) (write_at (h ! arr s) (off s + len s) xs) =
          take (len s) (drop (off s) (h ! arr s)) @ xs @ drop (off s + len s + length xs) (h ! arr s)"
      using bound d by (simp add: write_at_def)
    then have "take (len s + length xs) (drop (off s) (write_at (h ! arr s) (off s + len s) xs)) =
          take (len s) (drop (off s) (h ! arr s)) @ xs"
      using l by simp
    then show ?thesis using wf by (simp add: h1 s1 elems_def)
  qed
qed

lemma has_nil_iff: "has_nil us \<longleftrightarrow> None \<in> set us"
  by (induction us) (auto split: option.splits)

lemma Register_nil_check:
  assumes "wf_slice h (Middlewares node)"
  shows "(None \<in> set (elems h (Middlewares node) @ [Handler node]) \<longrightarrow>
            (\<exists>h1. Register grow (h, e) node =
               ((h1, e), Panics (PanicValue ''middleware or handle of a node is nil'')))) \<and>
         (None \<notin> set (elems h (Middlewares node) @ [Handler node]) \<longrightarrow>
            snd (Register grow (h, e) node) = Returns ())"
proof -
  obtain h1 s1 where a: "append_slice grow h (Middlewares node) [Handler node] = (h1, s1)"
    by (metis surj_pair)
  from append_slice_elems[OF assms a] have "elems h1 s1 = elems h (Middlewares node) @ [Handler node]" .
  then show ?thesis using a
    by (auto simp: Register_def Let_def has_nil_iff)
qed


text \<open>
  The example of a group with one child: prefix \<^verbatim>\<open>/api\<close> and middleware \<open>[L]\<close>, child
  \<^verbatim>\<open>/users\<close> with middleware \<open>[M]\<close> and a handler. The route is \<^verbatim>\<open>/api/users\<close> and
  its chain reads \<open>[L, M, handler]\<close>.
\<close>

lemma RegisterGroup_spec_example:
  "RegisterGroup demo_grow ([[unit_L], [unit_M]], New) spec_group =
     (([[unit_L], [unit_M], [unit_L, unit_M], [unit_L, unit_M, unit_users, None]],
       \<lparr>eng_r = [(''GET'', ''/api/users'',
                  \<lparr>rv_middlewares = \<lparr>arr = 3, off = 0, len = 3, cap = 4\<rparr>, rv_matchPath = ''/api/users''\<rparr>)],
        allowedMethods_s = [''GET''], allowedMethods_str = ''GET''\<rparr>), Returns ()) \<and>
   chain_of [[unit_L], [unit_M], [unit_L, unit_M], [unit_L, unit_M, unit_users, None]]
     \<lparr>rv_middlewares = \<lparr>arr = 3, off = 0, len = 3, cap = 4\<rparr>, rv_matchPath = ''/api/users''\<rparr> =
     [unit_L, unit_M, unit_users]"
  by (simp add: RegisterGroup_def spec_group_def New_def Register_def append_slice_def elems_def
      write_at_def chain_of_def demo_grow_def unit_L_def unit_M_def unit_users_def)

text \<open>
  C6 at a group of two children without middlewares of their own, whose group slice has
  a spare cell: \<^verbatim>\<open>append(group.Middlewares, v.Middlewares...)\<close> returns the group slice
  itself for each child, and \<^verbatim>\<open>Register\<close> appends each handler in place, into the
  one spare cell. Both routes end up with the same slice, and the chain of
  \<^verbatim>\<open>/api/users\<close> ends in the handler of \<^verbatim>\<open>/api/posts\<close>, not in its own.
\<close>

theorem RegisterGroup_children_share_array:
  "RegisterGroup demo_grow ([[unit_L, unit_M, unit_N, None]], New) grown_group =
     (([[unit_L, unit_M, unit_N, unit_posts]],
       \<lparr>eng_r = [(''GET'', ''/api/users'',
                  \<lparr>rv_middlewares = \<lparr>arr = 0, off = 0, len = 4, cap = 4\<rparr>, rv_matchPath = ''/api/users''\<rparr>),
                 (''GET'', ''/api/posts'',
                  \<lparr>rv_middlewares = \<lparr>arr = 0, off = 0, len = 4, cap = 4\<rparr>, rv_matchPath = ''/api/posts''\<rparr>)],
        allowedMethods_s = [''GET''], allowedMethods_str = ''GET''\<rparr>), Returns ()) \<and>
   chain_of [[unit_L, unit_M, unit_N, unit_posts]]
     \<lparr>rv_middlewares = \<lparr>arr = 0, off = 0, len = 4, cap = 4\<rparr>, rv_matchPath = ''/api/users''\<rparr> =
     [unit_L, unit_M, unit_N, unit_posts] \<and>
   [unit_L, unit_M, unit_N, unit_posts] \<noteq>
     elems [[unit_L, unit_M, unit_N, None]] (Group_Middlewares grown_group) @
     elems [[unit_L, unit_M, unit_N, None]] nil_slice @ [unit_users]"
  by (simp add: RegisterGroup_def grown_group_def New_def Register_def append_slice_def elems_def
      write_at_def chain_of_def nil_slice_def unit_L_def unit_M_def unit_N_def unit_users_def
      unit_posts_def fun_eq_iff)

text \<open>
  C7 at a node with a nil handler whose middleware slice is also the slice that the
  route \<^verbatim>\<open>/a\<close> was registered with: \<^verbatim>\<open>Register\<close> panics and the engine's fields are
  as before, but the \<^verbatim>\<open>append\<close> in front of the nil check has written nil into the
  cell where the route \<^verbatim>\<open>/a\<close> keeps its handler.
\<close>

theorem Register_abort_overwrites_chain:
  "Register demo_grow ([[unit_L, None]], New) node_a = (([[unit_L, unit_users]], engine_a), Returns ()) \<and>
   chain_of [[unit_L, unit_users]] \<lparr>rv_middlewares = \<lparr>arr = 0, off = 0, len = 2, cap = 2\<rparr>, rv_matchPath = ''/a''\<rparr> =
     [unit_L, unit_users] \<and>
   Register demo_grow ([[unit_L, unit_users]], engine_a) node_b =
     (([[unit_L, None]], engine_a), Panics (PanicValue ''middleware or handle of a node is nil'')) \<and>
   chain_of [[unit_L, None]] \<lparr>rv_middlewares = \<lparr>arr = 0, off = 0, len = 2, cap = 2\<rparr>, rv_matchPath = ''/a''\<rparr> =
     [unit_L, None]"
  by (simp add: New_def Register_def append_slice_def elems_def write_at_def chain_of_def
      node_a_def node_b_def engine_a_def shared_slice_def unit_L_def unit_users_def)


text \<open>
  What the two registrations above mean for requests: \<^verbatim>\<open>GET /api/users\<close> is answered
  by the handler of \<^verbatim>\<open>/api/posts\<close>, and \<^verbatim>\<open>GET /a\<close> runs into the nil unit, which
  the recover of \<^verbatim>\<open>ServeHTTP\<close> logs.
\<close>

lemma requests_on_shared_arrays:
  "ServeHTTP revision_root demo_ext [[unit_L, unit_M, unit_N, unit_posts]]
      \<lparr>eng_r = [(''GET'', ''/api/users'',
                 \<lparr>rv_middlewares = \<lparr>arr = 0, off = 0, len = 4, cap = 4\<rparr>, rv_matchPath = ''/api/users''\<rparr>),
                (''GET'', ''/api/posts'',
                 \<lparr>rv_middlewares = \<lparr>arr = 0, off = 0, len = 4, cap = 4\<rparr>, rv_matchPath = ''/api/posts''\<rparr>)],
       allowedMethods_s = [''GET''], allowedMethods_str = ''GET''\<rparr>
      ''id1'' (req_of ''GET'' ''/api/users'') =
     ([TraceReq (req_of ''GET'' ''/api/users''), LookupCall ''GET'' ''/api/users'',
       TraceMatch ''/api/users'' [], Invoke 0, Resp (SetHeader ''X-Log'' ''1''),
       Invoke 1, Resp (SetHeader ''X-Auth'' ''1''), Invoke 2, Resp (SetHeader ''X-Gzip'' ''1''),
       Invoke 3, Resp (Write ''posts''), Resp (SetHeader ''K_LOGID'' ''id1''), TraceResp], Returns ())"
  "ServeHTTP revision_root demo_ext [[unit_L, None]] engine_a ''id2'' (req_of ''GET'' ''/a'') =
     ([TraceReq (req_of ''GET'' ''/a''), LookupCall ''GET'' ''/a'', TraceMatch ''/a'' [],
       Invoke 0, Resp (SetHeader ''X-Log'' ''1''), Invoke 1, Critical NilDereference,
       Resp (SetHeader ''K_LOGID'' ''id2''), TraceResp], Returns ())"
  by (simp_all add: ServeHTTP_def dispatch_def req_of_def demo_ext_def demo_lookup_def engine_a_def
      revision_root_def elems_def recover_panic_def index_def call_unit_def view_def
      unit_L_def unit_M_def unit_N_def unit_posts_def)


end
